theory Spec2Isabelle
  imports Main
begin

section \<open>Optimizacion\_Logistica.py: a shallow embedding\<close>

text \<open>
  The script reads locations and vehicles, obtains a travel-time matrix, builds a routing
  model with a capacity and a time dimension, staggers the vehicles' departures, solves,
  and turns the solution into rows for export. Python integers are \<open>int\<close>, exceptions
  are values of \<open>py_error\<close>, Python lists are HOL lists read through \<open>py_nth\<close>.
\<close>

datatype py_error = ValueError | IndexError | KeyError

text \<open>Python's \<open>xs[i]\<close> for a non-negative index: IndexError out of range.\<close>

definition py_nth :: "'a list \<Rightarrow> nat \<Rightarrow> py_error + 'a" where
  "py_nth xs i = (if i < length xs then Inr (xs ! i) else Inl IndexError)"

subsection \<open>Time utilities\<close>

text \<open>
  \<open>str.split(':')\<close>: the pieces between the occurrences of the separator, so a string
  with k colons gives k + 1 pieces (the last equation's empty case cannot arise).
\<close>

fun split_colon :: "string \<Rightarrow> string list" where
  "split_colon [] = [[]]"
| "split_colon (c # cs) =
     (if c = CHR '':'' then [] # split_colon cs
      else (case split_colon cs of [] \<Rightarrow> [[c]] | p # ps \<Rightarrow> (c # p) # ps))"

text \<open>
  Python's \<open>int(s)\<close> on a string, a character standing for the code point of its
  number (so the model covers the strings of code points below 256): surrounding
  whitespace is dropped, one sign is allowed, then decimal digits, where single
  underscores may stand between digits. \<open>None\<close> is the ValueError. The whitespace
  \<open>int\<close> drops is narrower than that of \<open>str.strip\<close>: tab to carriage return (9 to 13)
  and the space (32), and beyond ASCII the next-line and no-break-space characters (133
  and 160); the separators 28 to 31 are not dropped, so \<open>int\<close> refuses a string that
  holds one. The only decimal digits below 256 are 0 to 9. The interpreter's configurable
  cap on the number of digits of one conversion is not modelled.
\<close>

definition is_space :: "char \<Rightarrow> bool" where
  "is_space c = (let n = (of_char c :: nat) in (9 \<le> n \<and> n \<le> 13) \<or> n = 32 \<or> n = 133 \<or> n = 160)"

definition digit_val :: "char \<Rightarrow> nat option" where
  "digit_val c = (let n = (of_char c :: nat) in if 48 \<le> n \<and> n \<le> 57 then Some (n - 48) else None)"

definition strip :: "string \<Rightarrow> string" where
  "strip s = rev (dropWhile is_space (rev (dropWhile is_space s)))"

fun parse_digits :: "nat \<Rightarrow> string \<Rightarrow> nat option" where
  "parse_digits acc [] = Some acc"
| "parse_digits acc (c # cs) =
     (if c = CHR ''_'' then
        (case cs of
           [] \<Rightarrow> None
         | d # ds \<Rightarrow> (case digit_val d of None \<Rightarrow> None | Some k \<Rightarrow> parse_digits (acc * 10 + k) ds))
      else (case digit_val c of None \<Rightarrow> None | Some k \<Rightarrow> parse_digits (acc * 10 + k) cs))"

definition parse_unsigned :: "string \<Rightarrow> nat option" where
  "parse_unsigned s =
     (case s of
        [] \<Rightarrow> None
      | c # cs \<Rightarrow> (case digit_val c of None \<Rightarrow> None | Some k \<Rightarrow> parse_digits k cs))"

definition py_int :: "string \<Rightarrow> int option" where
  "py_int s =
     (case strip s of
        [] \<Rightarrow> None
      | c # cs \<Rightarrow>
          if c = CHR ''-'' then map_option (\<lambda>n. - int n) (parse_unsigned cs)
          else if c = CHR ''+'' then map_option int (parse_unsigned cs)
          else map_option int (parse_unsigned (c # cs)))"

text \<open>
  \<open>h, m = map(int, str(time_str).split(':'))\<close>, then \<open>h * 60 + m\<close>: unpacking fails
  unless there are exactly two pieces, and each \<open>int\<close> may fail; all are ValueError.
\<close>

definition time_to_minutes :: "string \<Rightarrow> py_error + int" where
  "time_to_minutes time_str =
     (case split_colon time_str of
        [a, b] \<Rightarrow>
          (case py_int a of
             None \<Rightarrow> Inl ValueError
           | Some h \<Rightarrow> (case py_int b of None \<Rightarrow> Inl ValueError | Some m \<Rightarrow> Inr (h * 60 + m)))
      | _ \<Rightarrow> Inl ValueError)"

text \<open>Decimal digits of a natural number, as \<open>str\<close> prints them.\<close>

definition digit_char :: "nat \<Rightarrow> char" where
  "digit_char d = char_of (48 + d)"

fun dec :: "nat \<Rightarrow> string" where
  "dec n = (if n < 10 then [digit_char n] else dec (n div 10) @ [digit_char (n mod 10)])"

declare dec.simps [simp del]

text \<open>
  The format specification \<open>02d\<close>: sign-aware zero padding to width two. A negative
  number already fills the width with its sign and one digit.
\<close>

definition fmt_02d :: "int \<Rightarrow> string" where
  "fmt_02d x =
     (if x < 0 then CHR ''-'' # dec (nat (- x))
      else (let s = dec (nat x) in if length s < 2 then CHR ''0'' # s else s))"

text \<open>
  The rendering the script uses at every place it prints a minute count \<open>v\<close>:
  \<open>f"{v//60:02d}:{v%60:02d}"\<close>. Python's \<open>//\<close> and \<open>%\<close> round towards minus
  infinity, as \<open>div\<close> and \<open>mod\<close> on \<open>int\<close> do.
\<close>

definition fmt_hhmm :: "int \<Rightarrow> string" where
  "fmt_hhmm v = fmt_02d (v div 60) @ '':'' @ fmt_02d (v mod 60)"

text \<open>
  The valid 24-hour clock strings of the specification: two digits, a colon, two digits,
  with the hour at most 23 and the minute at most 59.
\<close>

definition valid_clock :: "string \<Rightarrow> bool" where
  "valid_clock s =
     (case s of
        [a, b, c, d, e] \<Rightarrow>
          c = CHR '':'' \<and>
          (case (digit_val a, digit_val b, digit_val d, digit_val e) of
             (Some h1, Some h0, Some m1, Some m0) \<Rightarrow> h1 * 10 + h0 \<le> 23 \<and> m1 * 10 + m0 \<le> 59
           | _ \<Rightarrow> False)
      | _ \<Rightarrow> False)"

text \<open>Strings of decimal digits and the number they denote, for the proofs about \<open>py_int\<close>.\<close>

definition all_digits :: "string \<Rightarrow> bool" where
  "all_digits s = list_all (\<lambda>c. digit_val c \<noteq> None) s"

definition digits_value :: "nat \<Rightarrow> string \<Rightarrow> nat" where
  "digits_value acc s = foldl (\<lambda>a c. a * 10 + the (digit_val c)) acc s"

subsection \<open>Input rows\<close>

text \<open>
  A cell of a sheet, and of an exported row: text or a whole number. The rows of the
  sheets "Datos" and "Vehiculos" carry the columns the script requires.
\<close>

datatype cell = Str string | Num int

type_synonym row = "cell list"

record location_row =
  tienda :: cell
  ubicacion :: string
  demanda :: int
  hora_apertura :: string
  hora_cierre :: string
  tiempo_servicio :: int

record vehicle_row =
  id_camion :: cell
  capacidad_cajas :: int
  tiempo_carga_min :: int

subsection \<open>The travel-time matrix\<close>

text \<open>
  One element of a Distance Matrix response: its \<open>status\<close>, and
  \<open>element['duration']['value']\<close> when the key is there (reading a missing key is a
  KeyError). A call of the service either raises or returns the response's rows, each a
  list of elements.
\<close>

record element =
  status :: string
  duration_value :: "int option"

datatype api_result = ApiRaised | Response "element list list"

text \<open>
  The list comprehension of \<open>get_time_matrix\<close>. The float computation
  \<open>int((value / 60) * slowdown_factor) + 1\<close> is the parameter \<open>slow\<close>, \<open>None\<close>
  when it raises. Every exception inside \<open>get_time_matrix\<close> is caught and turned into the
  result \<open>None\<close>, so one \<open>option\<close> carries them all.
\<close>

fun time_row :: "(int \<Rightarrow> int option) \<Rightarrow> element list \<Rightarrow> int list option" where
  "time_row slow [] = Some []"
| "time_row slow (e # es) =
     (case duration_value e of
        None \<Rightarrow> None
      | Some d \<Rightarrow>
          (case slow d of
             None \<Rightarrow> None
           | Some t \<Rightarrow> (case time_row slow es of None \<Rightarrow> None | Some ts \<Rightarrow> Some (t # ts))))"

text \<open>
  The loop over the origins: one call per origin, only the status of the first element of
  the first row is looked at, then the row is converted and appended.
\<close>

fun origins_loop ::
  "(nat \<Rightarrow> api_result) \<Rightarrow> (int \<Rightarrow> int option) \<Rightarrow> nat list \<Rightarrow> int list list \<Rightarrow> int list list option"
where
  "origins_loop api slow [] time_matrix = Some time_matrix"
| "origins_loop api slow (i # is) time_matrix =
     (case api i of
        ApiRaised \<Rightarrow> None
      | Response rows \<Rightarrow>
          (case rows of
             [] \<Rightarrow> None
           | row_elements # _ \<Rightarrow>
               (case row_elements of
                  [] \<Rightarrow> None
                | e # _ \<Rightarrow>
                    if status e \<noteq> ''OK'' then None
                    else (case time_row slow row_elements of
                            None \<Rightarrow> None
                          | Some tr \<Rightarrow> origins_loop api slow is (time_matrix @ [tr])))))"

text \<open>\<open>time_matrix[i][i] = 0\<close> for every row index; a row too short is an IndexError.\<close>

fun zero_diagonal :: "nat list \<Rightarrow> int list list \<Rightarrow> int list list option" where
  "zero_diagonal [] time_matrix = Some time_matrix"
| "zero_diagonal (i # is) time_matrix =
     (if i < length time_matrix \<and> i < length (time_matrix ! i)
      then zero_diagonal is (time_matrix[i := (time_matrix ! i)[i := 0]])
      else None)"

text \<open>
  \<open>gmaps\<close> is the client: \<open>None\<close> when its construction raises, otherwise the answer
  of \<open>distance_matrix\<close> for the origin at each position.
\<close>

definition get_time_matrix ::
  "(nat \<Rightarrow> api_result) option \<Rightarrow> (int \<Rightarrow> int option) \<Rightarrow> nat \<Rightarrow> int list list option"
where
  "get_time_matrix gmaps slow n_locations =
     (case gmaps of
        None \<Rightarrow> None
      | Some api \<Rightarrow>
          (case origins_loop api slow [0..<n_locations] [] of
             None \<Rightarrow> None
           | Some time_matrix \<Rightarrow> zero_diagonal [0..<length time_matrix] time_matrix))"

subsection \<open>The data model\<close>

record data_model =
  time_matrix :: "int list list"
  time_windows :: "(int \<times> int) list"
  demands :: "int list"
  service_times :: "int list"
  num_vehicles :: nat
  vehicle_capacities :: "int list"
  depot :: nat

fun windows_of :: "location_row list \<Rightarrow> py_error + (int \<times> int) list" where
  "windows_of [] = Inr []"
| "windows_of (r # rs) =
     (case time_to_minutes (hora_apertura r) of
        Inl e \<Rightarrow> Inl e
      | Inr a \<Rightarrow>
          (case time_to_minutes (hora_cierre r) of
             Inl e \<Rightarrow> Inl e
           | Inr c \<Rightarrow> (case windows_of rs of Inl e \<Rightarrow> Inl e | Inr ws \<Rightarrow> Inr ((a, c) # ws))))"

definition create_data_model ::
  "location_row list \<Rightarrow> vehicle_row list \<Rightarrow> int list list \<Rightarrow> py_error + data_model"
where
  "create_data_model df_locations df_vehicles tm =
     (case windows_of df_locations of
        Inl e \<Rightarrow> Inl e
      | Inr ws \<Rightarrow>
          Inr \<lparr>time_matrix = tm,
               time_windows = ws,
               demands = map demanda df_locations,
               service_times = map tiempo_servicio df_locations,
               num_vehicles = length df_vehicles,
               vehicle_capacities = map capacidad_cajas df_vehicles,
               depot = 0\<rparr>)"

subsection \<open>The routing library, as the script uses it\<close>

text \<open>
  The routing library is not part of the repository. Its index manager and routing model
  are taken as given functions: the translation between routing indices and location
  nodes, the start and end index of every vehicle, the test for end indices, and the
  number of indices.
\<close>

record index_manager =
  IndexToNode :: "nat \<Rightarrow> nat"
  NodeToIndex :: "nat \<Rightarrow> nat"
  Start :: "nat \<Rightarrow> nat"
  End :: "nat \<Rightarrow> nat"
  IsEnd :: "nat \<Rightarrow> bool"
  Size :: nat

text \<open>
  A dimension as the library's interface documents it: a transit evaluator, the maximum
  slack, the capacity that bounds the cumulative variable of each vehicle from above
  (the variable is never negative), and whether the cumulative variable is fixed to zero
  at every route start. The two registration calls take their arguments in the
  library's positional order: evaluator, slack maximum, capacity, fix-start flag, name.
\<close>

record dimension =
  evaluator :: "nat \<Rightarrow> nat \<Rightarrow> py_error + int"
  slack_max :: int
  capacities :: "int list"
  fix_start_cumul_to_zero :: bool
  dim_name :: string

definition AddDimension ::
  "nat \<Rightarrow> (nat \<Rightarrow> nat \<Rightarrow> py_error + int) \<Rightarrow> int \<Rightarrow> int \<Rightarrow> bool \<Rightarrow> string \<Rightarrow> dimension"
where
  "AddDimension n_vehicles ev slack capacity fix name =
     \<lparr>evaluator = ev, slack_max = slack, capacities = replicate n_vehicles capacity,
      fix_start_cumul_to_zero = fix, dim_name = name\<rparr>"

definition AddDimensionWithVehicleCapacity ::
  "(nat \<Rightarrow> py_error + int) \<Rightarrow> int \<Rightarrow> int list \<Rightarrow> bool \<Rightarrow> string \<Rightarrow> dimension"
where
  "AddDimensionWithVehicleCapacity unary_ev slack vehicle_caps fix name =
     \<lparr>evaluator = (\<lambda>from_index to_index. unary_ev from_index), slack_max = slack,
      capacities = vehicle_caps, fix_start_cumul_to_zero = fix, dim_name = name\<rparr>"

text \<open>The two callbacks of \<open>main\<close>.\<close>

definition time_callback :: "data_model \<Rightarrow> index_manager \<Rightarrow> nat \<Rightarrow> nat \<Rightarrow> py_error + int" where
  "time_callback data manager from_index to_index =
     (let from_node = IndexToNode manager from_index; to_node = IndexToNode manager to_index
      in case py_nth (time_matrix data) from_node of
           Inl e \<Rightarrow> Inl e
         | Inr matrix_row \<Rightarrow>
             (case py_nth matrix_row to_node of
                Inl e \<Rightarrow> Inl e
              | Inr t \<Rightarrow>
                  (case py_nth (service_times data) from_node of
                     Inl e \<Rightarrow> Inl e
                   | Inr s \<Rightarrow> Inr (t + s))))"

definition demand_callback :: "data_model \<Rightarrow> index_manager \<Rightarrow> nat \<Rightarrow> py_error + int" where
  "demand_callback data manager from_index = py_nth (demands data) (IndexToNode manager from_index)"

text \<open>Calls on the cumulative variables of the time dimension, in the order made.\<close>

datatype cumul_call = SetMin nat int | SetRange nat int int

text \<open>
  The staggered departures: each vehicle starts loading when the one before it has
  finished, and may not leave before its own loading ends.
\<close>

record release_state =
  start_loading_times :: "int list"
  current_time :: int
  time_calls :: "cumul_call list"

fun release_loop ::
  "index_manager \<Rightarrow> int list \<Rightarrow> cell list \<Rightarrow> nat list \<Rightarrow> release_state \<Rightarrow> py_error + release_state"
where
  "release_loop routing tiempos_de_carga vehicle_ids [] st = Inr st"
| "release_loop routing tiempos_de_carga vehicle_ids (v_id # rest) st =
     (case py_nth tiempos_de_carga v_id of
        Inl e \<Rightarrow> Inl e
      | Inr d \<Rightarrow>
          (let departure_time = current_time st + d
           in case py_nth vehicle_ids v_id of
                Inl e \<Rightarrow> Inl e
              | Inr _ \<Rightarrow>
                  release_loop routing tiempos_de_carga vehicle_ids rest
                    \<lparr>start_loading_times = start_loading_times st @ [current_time st],
                     current_time = departure_time,
                     time_calls = time_calls st @ [SetMin (Start routing v_id) departure_time]\<rparr>))"

definition staggered_release ::
  "index_manager \<Rightarrow> nat \<Rightarrow> int \<Rightarrow> int list \<Rightarrow> cell list \<Rightarrow> py_error + release_state"
where
  "staggered_release routing n_vehicles hora_inicio_min tiempos_de_carga vehicle_ids =
     release_loop routing tiempos_de_carga vehicle_ids [0..<n_vehicles]
       \<lparr>start_loading_times = [], current_time = hora_inicio_min, time_calls = []\<rparr>"

text \<open>The time windows: every location but the depot gets the range of its window.\<close>

fun window_loop ::
  "index_manager \<Rightarrow> nat \<Rightarrow> (nat \<times> int \<times> int) list \<Rightarrow> cumul_call list \<Rightarrow> cumul_call list"
where
  "window_loop manager dep [] calls = calls"
| "window_loop manager dep ((loc_idx, time_win) # rest) calls =
     (if loc_idx = dep then window_loop manager dep rest calls
      else window_loop manager dep rest
             (calls @ [SetRange (NodeToIndex manager loc_idx) (fst time_win) (snd time_win)]))"

text \<open>The model handed to the solver.\<close>

record routing_model =
  arc_cost_evaluator :: "nat \<Rightarrow> nat \<Rightarrow> py_error + int"
  capacity_dimension :: dimension
  time_dimension :: dimension
  cumul_calls :: "cumul_call list"
  finalizer_vars :: "nat list"
  first_solution_strategy :: string
  local_search_metaheuristic :: string
  time_limit_seconds :: nat

text \<open>
  The model \<open>main\<close> registers, given the calls the staggered departures have made:
  the arc cost, the two dimensions with the arguments as the script passes them, the time
  windows, the variables handed to the finalizer and the search parameters.
\<close>

definition routing_model_of :: "data_model \<Rightarrow> index_manager \<Rightarrow> cumul_call list \<Rightarrow> routing_model" where
  "routing_model_of data manager release_calls =
     \<lparr>arc_cost_evaluator = time_callback data manager,
      capacity_dimension =
        AddDimensionWithVehicleCapacity (demand_callback data manager) 0
          (vehicle_capacities data) True ''Capacity'',
      time_dimension =
        AddDimension (num_vehicles data) (time_callback data manager) 60 1440 False ''time'',
      cumul_calls =
        window_loop manager (depot data) (enumerate 0 (time_windows data)) release_calls,
      finalizer_vars = map (End manager) [0..<num_vehicles data],
      first_solution_strategy = ''PATH_CHEAPEST_ARC'',
      local_search_metaheuristic = ''GUIDED_LOCAL_SEARCH'',
      time_limit_seconds = 10\<rparr>"

definition build_model ::
  "data_model \<Rightarrow> index_manager \<Rightarrow> int \<Rightarrow> int list \<Rightarrow> cell list \<Rightarrow> py_error + (routing_model \<times> int list)"
where
  "build_model data manager hora_inicio_min tiempos_de_carga vehicle_ids =
     (case staggered_release manager (num_vehicles data) hora_inicio_min tiempos_de_carga vehicle_ids of
        Inl e \<Rightarrow> Inl e
      | Inr st \<Rightarrow> Inr (routing_model_of data manager (time_calls st), start_loading_times st))"

text \<open>
  What the solver returns: the successor of every index, the value of the time
  dimension's and of the capacity dimension's cumulative variable at every index, and the
  vehicle that visits every index.
\<close>

record assignment =
  NextVar :: "nat \<Rightarrow> nat"
  TimeCumul :: "nat \<Rightarrow> int"
  LoadCumul :: "nat \<Rightarrow> int"
  VehicleVar :: "nat \<Rightarrow> nat"

text \<open>
  The library's meaning of a dimension, index by index: the cumulative value lies
  between zero and the capacity of the visiting vehicle; across an arc it grows by the
  transit plus a slack between zero and the slack maximum; at a route start it is zero
  when the dimension says so.
\<close>

definition arc_ok :: "dimension \<Rightarrow> (nat \<Rightarrow> nat) \<Rightarrow> (nat \<Rightarrow> int) \<Rightarrow> nat \<Rightarrow> bool" where
  "arc_ok dim nxt cumul i =
     (case evaluator dim i (nxt i) of
        Inl _ \<Rightarrow> False
      | Inr t \<Rightarrow> 0 \<le> cumul (nxt i) - cumul i - t \<and> cumul (nxt i) - cumul i - t \<le> slack_max dim)"

definition dimension_holds ::
  "dimension \<Rightarrow> index_manager \<Rightarrow> nat \<Rightarrow> assignment \<Rightarrow> (nat \<Rightarrow> int) \<Rightarrow> bool"
where
  "dimension_holds dim manager n_vehicles sol cumul =
     (list_all (\<lambda>i. VehicleVar sol i < length (capacities dim)
                  \<and> 0 \<le> cumul i \<and> cumul i \<le> capacities dim ! VehicleVar sol i
                  \<and> (IsEnd manager i \<or> arc_ok dim (NextVar sol) cumul i))
        [0..<Size manager]
      \<and> list_all (\<lambda>v. fix_start_cumul_to_zero dim \<longrightarrow> cumul (Start manager v) = 0) [0..<n_vehicles])"

fun call_holds :: "(nat \<Rightarrow> int) \<Rightarrow> cumul_call \<Rightarrow> bool" where
  "call_holds cumul (SetMin i lo) = (lo \<le> cumul i)"
| "call_holds cumul (SetRange i lo hi) = (lo \<le> cumul i \<and> cumul i \<le> hi)"

text \<open>
  Routes are consistent when every start index belongs to its vehicle and an arc stays
  within one vehicle. A solution is feasible for a model when its routes are consistent,
  both dimensions are respected and every call on a cumulative variable holds.
\<close>

definition routes_ok :: "index_manager \<Rightarrow> nat \<Rightarrow> assignment \<Rightarrow> bool" where
  "routes_ok manager n_vehicles sol =
     (list_all (\<lambda>v. Start manager v < Size manager \<and> VehicleVar sol (Start manager v) = v) [0..<n_vehicles]
      \<and> list_all (\<lambda>i. IsEnd manager i \<or>
                       (NextVar sol i < Size manager \<and> VehicleVar sol (NextVar sol i) = VehicleVar sol i))
          [0..<Size manager])"

definition feasible :: "routing_model \<Rightarrow> index_manager \<Rightarrow> nat \<Rightarrow> assignment \<Rightarrow> bool" where
  "feasible model manager n_vehicles sol =
     (routes_ok manager n_vehicles sol
      \<and> dimension_holds (capacity_dimension model) manager n_vehicles sol (LoadCumul sol)
      \<and> dimension_holds (time_dimension model) manager n_vehicles sol (TimeCumul sol)
      \<and> list_all (call_holds (TimeCumul sol)) (cumul_calls model))"

text \<open>
  A stretch of a route: consecutive indices linked by the successor function, none of
  them but possibly the last an end index.
\<close>

fun is_path :: "index_manager \<Rightarrow> assignment \<Rightarrow> nat list \<Rightarrow> bool" where
  "is_path manager sol [] = True"
| "is_path manager sol [i] = True"
| "is_path manager sol (i # j # rest) =
     (\<not> IsEnd manager i \<and> j = NextVar sol i \<and> is_path manager sol (j # rest))"



subsection \<open>Extracting the plan\<close>

definition header :: row where
  "header = map Str [''Camion ID'', ''Secuencia'', ''Tienda'', ''Hora Inicio Carga'',
                     ''Hora Llegada'', ''Hora Salida'', ''Carga Acumulada (cajas)'']"

definition blank_row :: row where
  "blank_row = replicate (length header) (Str [])"

text \<open>
  The test the script applies to a vehicle: it is used unless the index after its start
  is already an end. The count in the separator condition applies the same test to every
  vehicle.
\<close>

definition vehicle_used :: "index_manager \<Rightarrow> assignment \<Rightarrow> nat \<Rightarrow> bool" where
  "vehicle_used routing solution v = (\<not> IsEnd routing (NextVar solution (Start routing v)))"

definition count_used :: "data_model \<Rightarrow> index_manager \<Rightarrow> assignment \<Rightarrow> nat" where
  "count_used data routing solution =
     length (filter (vehicle_used routing solution) [0..<num_vehicles data])"

text \<open>The row of one visit, with the load after it; the list reads may raise.\<close>

definition visit_row ::
  "data_model \<Rightarrow> index_manager \<Rightarrow> assignment \<Rightarrow> cell list \<Rightarrow> cell \<Rightarrow> nat \<Rightarrow> int \<Rightarrow> int
     \<Rightarrow> py_error + (int \<times> row)"
where
  "visit_row data manager solution store_names actual_vehicle_id index sequence route_load =
     (let node_index = IndexToNode manager index
      in case py_nth store_names node_index of
           Inl e \<Rightarrow> Inl e
         | Inr store_name \<Rightarrow>
             (case py_nth (demands data) node_index of
                Inl e \<Rightarrow> Inl e
              | Inr dem \<Rightarrow>
                  (let route_load' = route_load + dem;
                       arrival_time_val = TimeCumul solution index
                   in case py_nth (service_times data) node_index of
                        Inl e \<Rightarrow> Inl e
                      | Inr svc \<Rightarrow>
                          (let departure_time_val = arrival_time_val + svc
                           in Inr (route_load',
                                   [actual_vehicle_id, Num sequence, store_name, Str [],
                                    Str (fmt_hhmm arrival_time_val), Str (fmt_hhmm departure_time_val),
                                    Num route_load'])))))"

text \<open>
  The loop over the visits of one route. It follows the successors until an end index
  and need not terminate on an arbitrary successor function: \<open>None\<close> is a run that
  never returns. The result is the final index, sequence number, load and rows.
\<close>

partial_function (option) visit_loop ::
  "data_model \<Rightarrow> index_manager \<Rightarrow> assignment \<Rightarrow> cell list \<Rightarrow> cell \<Rightarrow> nat \<Rightarrow> int \<Rightarrow> int \<Rightarrow> row list
     \<Rightarrow> (py_error + (nat \<times> int \<times> int \<times> row list)) option"
where
  "visit_loop data manager solution store_names actual_vehicle_id index sequence route_load out =
     (if IsEnd manager index then Some (Inr (index, sequence, route_load, out))
      else if IsEnd manager (NextVar solution index)
        then Some (Inr (NextVar solution index, sequence, route_load, out))
      else (case visit_row data manager solution store_names actual_vehicle_id
                    (NextVar solution index) (sequence + 1) route_load of
              Inl e \<Rightarrow> Some (Inl e)
            | Inr (route_load', r) \<Rightarrow>
                visit_loop data manager solution store_names actual_vehicle_id
                  (NextVar solution index) (sequence + 1) route_load' (out @ [r])))"

declare visit_loop.simps [code]

text \<open>
  The end of one vehicle's turn: the row of the return to the depot, the updated count,
  and the blank record when the count of vehicles used so far is below the count of all
  used vehicles.
\<close>

definition close_route ::
  "data_model \<Rightarrow> index_manager \<Rightarrow> assignment \<Rightarrow> cell list \<Rightarrow> cell \<Rightarrow> nat
     \<Rightarrow> nat \<times> int \<times> int \<times> row list \<Rightarrow> py_error + (row list \<times> nat)"
where
  "close_route data manager solution store_names actual_vehicle_id vehicles_used res =
     (case res of
        (index, sequence, route_load, out) \<Rightarrow>
          (case py_nth store_names (IndexToNode manager index) of
             Inl e \<Rightarrow> Inl e
           | Inr store_name \<Rightarrow>
               (let out' = out @ [[actual_vehicle_id, Num (sequence + 1), store_name, Str [],
                                   Str (fmt_hhmm (TimeCumul solution index)), Str [], Num route_load]]
                in Inr (if vehicles_used < count_used data manager solution
                        then out' @ [blank_row] else out',
                        vehicles_used))))"

text \<open>
  One turn of the loop over the vehicles, on the rows so far and the count of vehicles
  used so far: an unused vehicle is skipped, a used one gets its departure row, its
  visits and its return.
\<close>

definition vehicle_step ::
  "data_model \<Rightarrow> index_manager \<Rightarrow> assignment \<Rightarrow> cell list \<Rightarrow> cell list \<Rightarrow> int list \<Rightarrow> nat
     \<Rightarrow> row list \<times> nat \<Rightarrow> (py_error + (row list \<times> nat)) option"
where
  "vehicle_step data manager solution store_names vehicle_ids start_loading vehicle_id st =
     (case py_nth vehicle_ids vehicle_id of
        Inl e \<Rightarrow> Some (Inl e)
      | Inr actual_vehicle_id \<Rightarrow>
          if IsEnd manager (NextVar solution (Start manager vehicle_id)) then Some (Inr st)
          else
            (case py_nth (vehicle_capacities data) vehicle_id of
               Inl e \<Rightarrow> Some (Inl e)
             | Inr _ \<Rightarrow>
                 (case py_nth store_names (IndexToNode manager (Start manager vehicle_id)) of
                    Inl e \<Rightarrow> Some (Inl e)
                  | Inr store_name \<Rightarrow>
                      (case py_nth start_loading vehicle_id of
                         Inl e \<Rightarrow> Some (Inl e)
                       | Inr start_load_val \<Rightarrow>
                           (case visit_loop data manager solution store_names actual_vehicle_id
                                   (Start manager vehicle_id) 0 0
                                   (fst st @
                                    [[actual_vehicle_id, Num 0, store_name,
                                      Str (fmt_hhmm start_load_val), Str [],
                                      Str (fmt_hhmm (TimeCumul solution (Start manager vehicle_id))),
                                      Num 0]]) of
                              None \<Rightarrow> None
                            | Some (Inl e) \<Rightarrow> Some (Inl e)
                            | Some (Inr res) \<Rightarrow>
                                Some (close_route data manager solution store_names actual_vehicle_id
                                        (snd st + 1) res))))))"

fun vehicles_loop ::
  "data_model \<Rightarrow> index_manager \<Rightarrow> assignment \<Rightarrow> cell list \<Rightarrow> cell list \<Rightarrow> int list \<Rightarrow> nat list
     \<Rightarrow> row list \<times> nat \<Rightarrow> (py_error + (row list \<times> nat)) option"
where
  "vehicles_loop data manager solution store_names vehicle_ids start_loading [] st = Some (Inr st)"
| "vehicles_loop data manager solution store_names vehicle_ids start_loading (v # vs) st =
     (case vehicle_step data manager solution store_names vehicle_ids start_loading v st of
        None \<Rightarrow> None
      | Some (Inl e) \<Rightarrow> Some (Inl e)
      | Some (Inr st') \<Rightarrow>
          vehicles_loop data manager solution store_names vehicle_ids start_loading vs st')"

definition process_solution ::
  "data_model \<Rightarrow> index_manager \<Rightarrow> assignment \<Rightarrow> cell list \<Rightarrow> cell list \<Rightarrow> int list
     \<Rightarrow> (py_error + row list) option"
where
  "process_solution data manager solution store_names vehicle_ids start_loading =
     (case vehicles_loop data manager solution store_names vehicle_ids start_loading
             [0..<num_vehicles data] ([header], 0) of
        None \<Rightarrow> None
      | Some (Inl e) \<Rightarrow> Some (Inl e)
      | Some (Inr st) \<Rightarrow> Some (Inr (fst st)))"

text \<open>
  The groups of a plan joined by one blank record between neighbours, and the shape of
  an event row: the vehicle's id, then a sequence number.
\<close>

fun join_groups :: "row list list \<Rightarrow> row list" where
  "join_groups [] = []"
| "join_groups [g] = g"
| "join_groups (g # g' # gs) = g @ [blank_row] @ join_groups (g' # gs)"

fun event_row :: "cell \<Rightarrow> row \<Rightarrow> bool" where
  "event_row vid (a # Num s # rest) = (a = vid)"
| "event_row vid r = False"

text \<open>
  The rows a run of the loop emits when it has already counted \<open>k\<close> used vehicles and
  the separator condition compares with \<open>n_used\<close>.
\<close>

fun emitted :: "nat \<Rightarrow> nat \<Rightarrow> row list list \<Rightarrow> row list" where
  "emitted n_used k [] = []"
| "emitted n_used k (g # gs) =
     g @ (if k + 1 < n_used then [blank_row] else []) @ emitted n_used (k + 1) gs"

subsection \<open>The main flow\<close>

text \<open>
  The exits of \<open>main\<close>: the two early returns, an exception that nothing catches, no
  solution, and the hand-over of the plan to the export, which writes only when there is
  more than the header. What is outside the repository comes in as parameters: the loaded
  sheets, the map client, the float conversion, the index manager the library builds,
  and the solver.
\<close>

datatype outcome =
    Return_no_data
  | Return_no_matrix
  | Raised py_error
  | No_solution
  | Exported "row list"
  | No_active_routes

definition HORA_INICIO_CARGA :: string where
  "HORA_INICIO_CARGA = ''07:30''"

definition main ::
  "(location_row list \<times> vehicle_row list) option \<Rightarrow> (nat \<Rightarrow> api_result) option \<Rightarrow> (int \<Rightarrow> int option)
     \<Rightarrow> (nat \<Rightarrow> nat \<Rightarrow> nat \<Rightarrow> index_manager) \<Rightarrow> (routing_model \<Rightarrow> assignment option)
     \<Rightarrow> outcome option"
where
  "main loaded gmaps slow RoutingIndexManager SolveWithParameters =
     (case loaded of
        None \<Rightarrow> Some Return_no_data
      | Some (df_locations, df_vehicles) \<Rightarrow>
          (case get_time_matrix gmaps slow (length df_locations) of
             None \<Rightarrow> Some Return_no_matrix
           | Some tm \<Rightarrow>
               (case create_data_model df_locations df_vehicles tm of
                  Inl e \<Rightarrow> Some (Raised e)
                | Inr data \<Rightarrow>
                    (let manager = RoutingIndexManager (length (time_matrix data)) (num_vehicles data) (depot data);
                         store_names = map tienda df_locations;
                         vehicle_ids = map id_camion df_vehicles
                     in case time_to_minutes HORA_INICIO_CARGA of
                          Inl e \<Rightarrow> Some (Raised e)
                        | Inr hora_inicio_min \<Rightarrow>
                            (case build_model data manager hora_inicio_min
                                    (map tiempo_carga_min df_vehicles) vehicle_ids of
                               Inl e \<Rightarrow> Some (Raised e)
                             | Inr (model, start_loading) \<Rightarrow>
                                 (case SolveWithParameters model of
                                    None \<Rightarrow> Some No_solution
                                  | Some solution \<Rightarrow>
                                      (case process_solution data manager solution store_names
                                              vehicle_ids start_loading of
                                         None \<Rightarrow> None
                                       | Some (Inl e) \<Rightarrow> Some (Raised e)
                                       | Some (Inr plan) \<Rightarrow>
                                           Some (if 1 < length plan then Exported plan
                                                 else No_active_routes))))))))"


subsection \<open>A small instance\<close>

text \<open>
  Three locations (the depot and two shops) and three vehicles, with the indices laid out
  as the library does for a single depot: the locations first, then the starts of the
  further vehicles, then the ends.
\<close>

definition example_manager :: index_manager where
  "example_manager = \<lparr>IndexToNode = (\<lambda>i. if i < 3 then i else 0), NodeToIndex = (\<lambda>n. n),
     Start = (\<lambda>v. if v = 0 then 0 else v + 2), End = (\<lambda>v. v + 5), IsEnd = (\<lambda>i. 5 \<le> i), Size = 8\<rparr>"

definition example_data :: data_model where
  "example_data = \<lparr>time_matrix = [[0, 10, 20], [10, 0, 15], [20, 15, 0]],
     time_windows = [(0, 1440), (480, 600), (480, 720)],
     demands = [0, 5, 7], service_times = [0, 10, 10], num_vehicles = 3,
     vehicle_capacities = [10, 10, 10], depot = 0\<rparr>"

text \<open>Vehicle 0 serves shop 1, vehicle 1 stays, vehicle 2 serves shop 2.\<close>

definition example_solution :: assignment where
  "example_solution = \<lparr>
     NextVar = (\<lambda>i. if i = 0 then 1 else if i = 1 then 5 else if i = 3 then 6
                     else if i = 4 then 2 else if i = 2 then 7 else i),
     TimeCumul = (\<lambda>i. if i = 0 then 470 else if i = 1 then 480 else if i = 5 then 500
                       else if i = 3 then 485 else if i = 6 then 485
                       else if i = 4 then 500 else if i = 2 then 520 else 550),
     LoadCumul = (\<lambda>i. if i = 5 then 5 else if i = 7 then 7 else 0),
     VehicleVar = (\<lambda>i. if i = 0 \<or> i = 1 \<or> i = 5 then 0 else if i = 3 \<or> i = 6 then 1 else 2)\<rparr>"

definition example_names :: "cell list" where
  "example_names = [Str ''Bodega'', Str ''Tienda A'', Str ''Tienda B'']"

definition example_ids :: "cell list" where
  "example_ids = [Str ''C1'', Str ''C2'', Str ''C3'']"


text \<open>The plan the extractor gives for this instance.\<close>

definition example_plan :: "row list" where
  "example_plan =
     [header,
      [Str ''C1'', Num 0, Str ''Bodega'', Str ''07:30'', Str [], Str ''07:50'', Num 0],
      [Str ''C1'', Num 1, Str ''Tienda A'', Str [], Str ''08:00'', Str ''08:10'', Num 5],
      [Str ''C1'', Num 2, Str ''Bodega'', Str [], Str ''08:20'', Str [], Num 5],
      blank_row,
      [Str ''C3'', Num 0, Str ''Bodega'', Str ''08:05'', Str [], Str ''08:20'', Num 0],
      [Str ''C3'', Num 1, Str ''Tienda B'', Str [], Str ''08:40'', Str ''08:50'', Num 7],
      [Str ''C3'', Num 2, Str ''Bodega'', Str [], Str ''09:10'', Str [], Num 7]]"


text \<open>
  Answers of the map service for two locations in which the entry from the first to the
  second location could not be obtained.
\<close>

definition example_api :: "nat \<Rightarrow> api_result" where
  "example_api i =
     (if i = 0
      then Response [[\<lparr>status = ''OK'', duration_value = Some 0\<rparr>,
                      \<lparr>status = ''NOT_FOUND'', duration_value = None\<rparr>]]
      else Response [[\<lparr>status = ''OK'', duration_value = Some 600\<rparr>,
                      \<lparr>status = ''OK'', duration_value = Some 0\<rparr>]])"

definition example_locations :: "location_row list" where
  "example_locations =
     [\<lparr>tienda = Str ''Bodega'', ubicacion = ''A'', demanda = 0, hora_apertura = ''00:00'',
       hora_cierre = ''23:59'', tiempo_servicio = 0\<rparr>,
      \<lparr>tienda = Str ''Tienda A'', ubicacion = ''B'', demanda = 5, hora_apertura = ''08:00'',
       hora_cierre = ''10:00'', tiempo_servicio = 10\<rparr>]"


text \<open>
  A second instance: the depot and one shop, one vehicle, windows open all day, and a
  solution that leaves the depot ten minutes after midnight.
\<close>

definition small_manager :: index_manager where
  "small_manager = \<lparr>IndexToNode = (\<lambda>i. if i = 1 then 1 else 0), NodeToIndex = (\<lambda>n. n),
     Start = (\<lambda>v. 0), End = (\<lambda>v. 2), IsEnd = (\<lambda>i. i = 2), Size = 3\<rparr>"

definition small_data :: data_model where
  "small_data = \<lparr>time_matrix = [[0, 10], [10, 0]], time_windows = [(0, 1440), (0, 1440)],
     demands = [0, 5], service_times = [0, 10], num_vehicles = 1,
     vehicle_capacities = [10], depot = 0\<rparr>"

definition early_solution :: assignment where
  "early_solution = \<lparr>
     NextVar = (\<lambda>i. if i = 0 then 1 else 2),
     TimeCumul = (\<lambda>i. if i = 0 then 10 else if i = 1 then 20 else 40),
     LoadCumul = (\<lambda>i. if i = 2 then 5 else 0),
     VehicleVar = (\<lambda>i. 0)\<rparr>"


section \<open>Properties of the time utilities\<close>

lemma digit_char_0: "digit_char 0 = CHR ''0''"
  by code_simp

lemma digit_val_digit_char: "d < 10 \<Longrightarrow> digit_val (digit_char d) = Some d"
  by (simp add: digit_val_def digit_char_def)

lemma digit_val_SomeD:
  assumes "digit_val c = Some d"
  shows "digit_char d = c" and "d < 10"
proof -
  from assms have n: "48 \<le> (of_char c :: nat)" "(of_char c :: nat) \<le> 57" and d: "d = of_char c - 48"
    by (auto simp: digit_val_def Let_def split: if_splits)
  from n d have "48 + d = (of_char c :: nat)" by simp
  then show "digit_char d = c" by (simp add: digit_char_def)
  from n d show "d < 10" by simp
qed

lemma digit_not_special:
  assumes "digit_val c = Some d"
  shows "\<not> is_space c" and "c \<noteq> CHR '':''" and "c \<noteq> CHR ''-''" and "c \<noteq> CHR ''+''" and "c \<noteq> CHR ''_''"
  using assms by (auto simp: digit_val_def is_space_def Let_def split: if_splits)


lemma split_colon_no_colon: "CHR '':'' \<notin> set s \<Longrightarrow> split_colon s = [s]"
  by (induction s) auto

lemma split_colon_append:
  "CHR '':'' \<notin> set a \<Longrightarrow> split_colon (a @ CHR '':'' # b) = a # split_colon b"
  by (induction a) auto




lemma parse_digits_all_digits:
  "all_digits s \<Longrightarrow> parse_digits acc s = Some (digits_value acc s)"
proof (induction s arbitrary: acc)
  case Nil
  then show ?case by (simp add: digits_value_def)
next
  case (Cons c cs)
  then obtain k where k: "digit_val c = Some k" and cs: "all_digits cs"
    by (auto simp: all_digits_def)
  from k have "c \<noteq> CHR ''_''" by (rule digit_not_special)
  with k Cons.IH [OF cs] show ?case by (simp add: digits_value_def)
qed

lemma strip_digits:
  assumes "all_digits s"
  shows "strip s = s"
proof (cases s)
  case Nil
  then show ?thesis by (simp add: strip_def)
next
  case (Cons c cs)
  with assms have "\<not> is_space c" by (auto simp: all_digits_def dest: digit_not_special(1))
  with Cons have 1: "dropWhile is_space s = s" by simp
  from Cons have "rev s \<noteq> []" by simp
  then obtain d ds where r: "rev s = d # ds" by (cases "rev s") auto
  then have "d \<in> set s" by (metis list.set_intros(1) set_rev)
  with assms have "\<not> is_space d" by (auto simp: all_digits_def list_all_iff dest: digit_not_special(1))
  with r have "dropWhile is_space (rev s) = rev s" by simp
  with 1 show ?thesis by (simp add: strip_def)
qed

lemma py_int_digits:
  assumes "all_digits s" and "s \<noteq> []"
  shows "py_int s = Some (int (digits_value 0 s))"
proof -
  from assms obtain c cs where s: "s = c # cs" by (cases s) auto
  with assms obtain k where k: "digit_val c = Some k" and cs: "all_digits cs"
    by (auto simp: all_digits_def)
  from k have ne: "c \<noteq> CHR ''-''" "c \<noteq> CHR ''+''" by (rule digit_not_special)+
  have "parse_unsigned s = Some (digits_value 0 s)"
    using k s parse_digits_all_digits [OF cs, of k] by (simp add: parse_unsigned_def digits_value_def)
  with ne s strip_digits [OF assms(1)] show ?thesis by (simp add: py_int_def)
qed

lemma dec_all_digits: "all_digits (dec n)"
proof (induction n rule: dec.induct)
  case (1 n)
  show ?case
  proof (cases "n < 10")
    case True
    then show ?thesis by (simp add: dec.simps [of n] all_digits_def digit_val_digit_char)
  next
    case False
    with 1 have "all_digits (dec (n div 10))" by simp
    moreover have "digit_val (digit_char (n mod 10)) = Some (n mod 10)"
      by (simp add: digit_val_digit_char)
    ultimately show ?thesis using False by (simp add: dec.simps [of n] all_digits_def)
  qed
qed

lemma dec_nonempty: "dec n \<noteq> []"
  by (subst dec.simps) simp

lemma digits_value_dec: "digits_value 0 (dec n) = n"
proof (induction n rule: dec.induct)
  case (1 n)
  show ?case
  proof (cases "n < 10")
    case True
    then show ?thesis by (simp add: dec.simps [of n] digits_value_def digit_val_digit_char)
  next
    case False
    with 1 have "digits_value 0 (dec (n div 10)) = n div 10" by simp
    then show ?thesis using False
      by (simp add: dec.simps [of n] digits_value_def digit_val_digit_char)
  qed
qed

lemma py_int_dec: "py_int (dec n) = Some (int n)"
  by (simp add: py_int_digits dec_all_digits dec_nonempty digits_value_dec)

lemma dec_no_colon: "CHR '':'' \<notin> set (dec n)"
proof
  assume "CHR '':'' \<in> set (dec n)"
  with dec_all_digits [of n] obtain d where "digit_val (CHR '':'') = Some d"
    by (auto simp: all_digits_def list_all_iff)
  then show False by (auto dest: digit_not_special(2))
qed

lemma py_int_two_digits:
  assumes "digit_val a = Some h1" and "digit_val b = Some h0"
  shows "py_int [a, b] = Some (int (h1 * 10 + h0))"
proof -
  from assms have "all_digits [a, b]" by (simp add: all_digits_def)
  from py_int_digits [OF this] assms show ?thesis by (simp add: digits_value_def)
qed

lemma dec_small: "n < 10 \<Longrightarrow> dec n = [digit_char n]"
  by (simp add: dec.simps [of n])

lemma fmt_02d_int:
  "fmt_02d (int n) = (if length (dec n) < 2 then CHR ''0'' # dec n else dec n)"
  by (simp add: fmt_02d_def)

lemma fmt_02d_two_digits:
  assumes "h1 < 10" and "h0 < 10" and "n = h1 * 10 + h0"
  shows "fmt_02d (int n) = [digit_char h1, digit_char h0]"
proof (cases "h1 = 0")
  case True
  with assms show ?thesis by (simp add: fmt_02d_int dec_small digit_char_0)
next
  case False
  with assms have big: "\<not> n < 10" by simp
  from assms have "n div 10 = h1" and "n mod 10 = h0" by simp_all
  with big assms(1) have "dec n = [digit_char h1, digit_char h0]"
    by (simp add: dec.simps [of n] dec_small)
  then show ?thesis by (simp add: fmt_02d_int)
qed

lemma div_mod_60:
  fixes h m :: int
  assumes "0 \<le> m" and "m < 60"
  shows "(h * 60 + m) div 60 = h" and "(h * 60 + m) mod 60 = m"
  using assms by simp_all

lemma py_int_fmt_02d:
  assumes "0 \<le> x"
  shows "py_int (fmt_02d x) = Some x" and "CHR '':'' \<notin> set (fmt_02d x)"
proof -
  let ?s = "dec (nat x)"
  have z: "digit_val (CHR ''0'') = Some 0" by code_simp
  have ad: "all_digits (CHR ''0'' # ?s)"
    using dec_all_digits [of "nat x"] z by (simp add: all_digits_def)
  have "py_int (CHR ''0'' # ?s) = Some x"
    using py_int_digits [OF ad] z digits_value_dec [of "nat x"] assms by (simp add: digits_value_def)
  with py_int_dec [of "nat x"] assms show "py_int (fmt_02d x) = Some x"
    by (simp add: fmt_02d_def Let_def)
  from assms dec_no_colon [of "nat x"] show "CHR '':'' \<notin> set (fmt_02d x)"
    by (simp add: fmt_02d_def Let_def)
qed

lemma time_to_minutes_fmt_hhmm:
  assumes "0 \<le> v"
  shows "time_to_minutes (fmt_hhmm v) = Inr v"
proof -
  from assms have h: "0 \<le> v div 60" by simp
  have m: "0 \<le> v mod 60" by simp
  have "split_colon (fmt_hhmm v) = [fmt_02d (v div 60), fmt_02d (v mod 60)]"
    using split_colon_append [OF py_int_fmt_02d(2) [OF h]] split_colon_no_colon [OF py_int_fmt_02d(2) [OF m]]
    by (simp add: fmt_hhmm_def)
  then show ?thesis
    using py_int_fmt_02d(1) [OF h] py_int_fmt_02d(1) [OF m] by (simp add: time_to_minutes_def)
qed


subsection \<open>Round trip of clock strings\<close>

text \<open>
  Claim C5. Every valid 24-hour clock string "HH:MM" is converted by \<open>time_to_minutes\<close>
  to a minute of the day, and rendering that value back with the script's format
  (hours \<open>v // 60\<close>, minutes \<open>v % 60\<close>, each zero-padded to two digits) gives the
  original string.
\<close>

theorem clock_round_trip:
  assumes "valid_clock s"
  shows "\<exists>v. time_to_minutes s = Inr v \<and> 0 \<le> v \<and> v < 1440 \<and> fmt_hhmm v = s"
proof -
  from assms obtain a b d e h1 h0 m1 m0 where
    s: "s = [a, b, CHR '':'', d, e]" and
    dv: "digit_val a = Some h1" "digit_val b = Some h0" "digit_val d = Some m1" "digit_val e = Some m0" and
    rng: "h1 * 10 + h0 \<le> 23" "m1 * 10 + m0 \<le> 59"
    by (auto simp: valid_clock_def split: list.splits option.splits)
  define h where "h = h1 * 10 + h0"
  define m where "m = m1 * 10 + m0"
  from dv have nc: "CHR '':'' \<notin> set [a, b]" "CHR '':'' \<notin> set [d, e]"
    by (auto dest: digit_not_special(2))
  have "split_colon s = [[a, b], [d, e]]"
    using split_colon_append [OF nc(1), of "[d, e]"] split_colon_no_colon [OF nc(2)] s by simp
  then have t: "time_to_minutes s = Inr (int h * 60 + int m)"
    using py_int_two_digits [OF dv(1) dv(2)] py_int_two_digits [OF dv(3) dv(4)]
    unfolding h_def m_def by (simp add: time_to_minutes_def)
  from rng have mr: "0 \<le> int m" "int m < 60" and hr: "int h < 24" by (simp_all add: h_def m_def)
  note dm = div_mod_60 [OF mr, of "int h"]
  from dv have lt: "h1 < 10" "h0 < 10" "m1 < 10" "m0 < 10" by (auto dest: digit_val_SomeD(2))
  from dv have ch: "digit_char h1 = a" "digit_char h0 = b" "digit_char m1 = d" "digit_char m0 = e"
    by (auto dest: digit_val_SomeD(1))
  have "fmt_hhmm (int h * 60 + int m) = s"
    unfolding fmt_hhmm_def dm
    using fmt_02d_two_digits [OF lt(1) lt(2) h_def] fmt_02d_two_digits [OF lt(3) lt(4) m_def] ch s
    by simp
  moreover from mr hr have "0 \<le> int h * 60 + int m" "int h * 60 + int m < 1440" by simp_all
  ultimately show ?thesis using t by blast
qed

theorem clock_round_trip_witness:
  "valid_clock ''07:30'' \<and> (\<exists>v. time_to_minutes ''07:30'' = Inr v \<and> 0 \<le> v \<and> v < 1440 \<and> fmt_hhmm v = ''07:30'')"
proof -
  have h: "valid_clock ''07:30''" by code_simp
  from clock_round_trip [OF h] h show ?thesis by simp
qed

subsection \<open>The hour field is not wrapped\<close>

text \<open>
  Claim C10. The rendering computes the hour field as \<open>v // 60\<close> with no reduction
  modulo 24 hours: for every value \<open>v\<close> of at least 1440 the text before the colon is
  the decimal form of \<open>v div 60\<close>, which is at least 24, so the string differs from the
  rendering of the wrapped time \<open>v mod 1440\<close>; 1470 renders as "24:30".
\<close>

theorem hour_field_not_wrapped:
  assumes "1440 \<le> v"
  shows "fmt_hhmm v = fmt_02d (v div 60) @ '':'' @ fmt_02d (v mod 60)
       \<and> CHR '':'' \<notin> set (fmt_02d (v div 60))
       \<and> py_int (fmt_02d (v div 60)) = Some (v div 60)
       \<and> 24 \<le> v div 60
       \<and> fmt_hhmm v \<noteq> fmt_hhmm (v mod 1440)
       \<and> fmt_hhmm 1470 = ''24:30''"
proof -
  from assms have h: "0 \<le> v div 60" and h24: "24 \<le> v div 60" by simp_all
  have ne: "fmt_hhmm v \<noteq> fmt_hhmm (v mod 1440)"
  proof
    assume eq: "fmt_hhmm v = fmt_hhmm (v mod 1440)"
    from assms have "0 \<le> v" by simp
    then have 1: "time_to_minutes (fmt_hhmm v) = Inr v" by (rule time_to_minutes_fmt_hhmm)
    have "0 \<le> v mod 1440" by simp
    then have 2: "time_to_minutes (fmt_hhmm (v mod 1440)) = Inr (v mod 1440)"
      by (rule time_to_minutes_fmt_hhmm)
    from 1 2 have "Inr v = (Inr (v mod 1440) :: py_error + int)" unfolding eq by (rule trans [OF sym])
    then have "v = v mod 1440" by (rule Inr_inject)
    moreover have "v mod 1440 < 1440" by simp
    ultimately show False using assms by linarith
  qed
  have ex: "fmt_hhmm 1470 = ''24:30''" by code_simp
  have d: "fmt_hhmm v = fmt_02d (v div 60) @ '':'' @ fmt_02d (v mod 60)" by (rule fmt_hhmm_def)
  from d py_int_fmt_02d(2) [OF h] py_int_fmt_02d(1) [OF h] h24 ne ex show ?thesis
    by (intro conjI)
qed

theorem hour_field_not_wrapped_witness:
  "(1440::int) \<le> 1500 \<and> fmt_hhmm 1500 = ''25:00'' \<and> fmt_hhmm 1500 \<noteq> fmt_hhmm (1500 mod 1440)
   \<and> (24::int) \<le> 1500 div 60"
proof -
  have h: "(1440::int) \<le> 1500" by simp
  have e: "fmt_hhmm 1500 = ''25:00''" by code_simp
  note t = hour_field_not_wrapped [OF h]
  from t have n: "fmt_hhmm 1500 \<noteq> fmt_hhmm (1500 mod 1440)" by (elim conjE)
  from t have g: "(24::int) \<le> 1500 div 60" by (elim conjE)
  from h e n g show ?thesis by (intro conjI)
qed

subsection \<open>Partiality of the conversion\<close>



section \<open>The staggered departures\<close>

lemma release_loop_result:
  assumes "\<forall>v\<in>set vs. v < length d \<and> v < length ids"
  shows "release_loop r d ids vs st =
     Inr \<lparr>start_loading_times = start_loading_times st @
             map (\<lambda>k. current_time st + sum_list (take k (map ((!) d) vs))) [0..<length vs],
          current_time = current_time st + sum_list (map ((!) d) vs),
          time_calls = time_calls st @
             map (\<lambda>k. SetMin (Start r (vs ! k)) (current_time st + sum_list (take (Suc k) (map ((!) d) vs))))
               [0..<length vs]\<rparr>"
  using assms
proof (induction vs arbitrary: st)
  case Nil
  then show ?case by simp
next
  case (Cons v vs)
  from Cons.prems have v: "v < length d" "v < length ids" and rest: "\<forall>v\<in>set vs. v < length d \<and> v < length ids"
    by simp_all
  let ?st = "\<lparr>start_loading_times = start_loading_times st @ [current_time st],
              current_time = current_time st + d ! v,
              time_calls = time_calls st @ [SetMin (Start r v) (current_time st + d ! v)]\<rparr>"
  have step: "release_loop r d ids (v # vs) st = release_loop r d ids vs ?st"
    using v by (simp add: py_nth_def Let_def)
  have shift: "\<And>f :: nat \<Rightarrow> 'b. map f [0..<length (v # vs)] = f 0 # map (\<lambda>k. f (Suc k)) [0..<length vs]"
    by (simp add: map_upt_Suc del: upt_Suc)
  show ?case
    unfolding step Cons.IH [OF rest] shift
    by (simp add: add.assoc)
qed




section \<open>The extracted plan\<close>

lemma not_event_blank: "\<not> event_row vid blank_row"
  by (simp add: blank_row_def header_def)

lemma header_not_blank: "header \<noteq> blank_row"
  by (simp add: blank_row_def header_def)

lemma visit_row_event:
  "visit_row data m sol names vid i s l = Inr (l', r) \<Longrightarrow> event_row vid r"
  by (auto simp: visit_row_def Let_def split: sum.splits)

lemma visit_loop_rows:
  assumes "visit_loop data m sol names vid i s l out = Some y"
  shows "case y of
           Inl e \<Rightarrow> True
         | Inr (i', s', l', out') \<Rightarrow> \<exists>rs. out' = out @ rs \<and> list_all (event_row vid) rs"
proof (rule visit_loop.raw_induct [OF _ assms], goal_cases)
  case (1 loop data m sol names vid i s l out y)
  show ?case
  proof (cases "IsEnd m i \<or> IsEnd m (NextVar sol i)")
    case True
    with 1(2) show ?thesis by (auto split: if_splits)
  next
    case False
    show ?thesis
    proof (cases "visit_row data m sol names vid (NextVar sol i) (s + 1) l")
      case (Inl e)
      with False 1(2) show ?thesis by auto
    next
      case (Inr p)
      obtain l1 r where p: "p = (l1, r)" by (cases p)
      with Inr False 1(2) have rec: "loop data m sol names vid (NextVar sol i) (s + 1) l1 (out @ [r]) = Some y"
        by simp
      from Inr p have ev: "event_row vid r" by (auto dest: visit_row_event)
      from 1(1) [OF rec] ev show ?thesis by (cases y) auto
    qed
  qed
qed

lemma close_route_rows:
  assumes "close_route data m sol names vid k (i, s, l, out) = Inr (out', k')"
  shows "k' = k \<and> (\<exists>r. event_row vid r \<and>
           out' = out @ [r] @ (if k < count_used data m sol then [blank_row] else []))"
  using assms by (auto simp: close_route_def Let_def split: sum.splits if_splits)

lemma vehicle_step_unused:
  assumes "v < length ids" and "\<not> vehicle_used m sol v"
  shows "vehicle_step data m sol names ids slt v st = Some (Inr st)"
  using assms by (simp add: vehicle_step_def py_nth_def vehicle_used_def)

lemma vehicle_step_used:
  assumes "vehicle_step data m sol names ids slt v (out, k) = Some (Inr (out', k'))"
    and "vehicle_used m sol v"
  shows "k' = k + 1 \<and> (\<exists>g. g \<noteq> [] \<and> list_all (event_row (ids ! v)) g \<and>
           out' = out @ g @ (if k + 1 < count_used data m sol then [blank_row] else []))"
proof -
  from assms(2) have nu: "\<not> IsEnd m (NextVar sol (Start m v))" by (simp add: vehicle_used_def)
  from assms(1) have vid: "py_nth ids v = Inr (ids ! v)"
    by (auto simp: vehicle_step_def py_nth_def split: if_splits)
  from assms(1) vid nu obtain name sl res where
    loop: "visit_loop data m sol names (ids ! v) (Start m v) 0 0
             (out @ [[ids ! v, Num 0, name, Str (fmt_hhmm sl), Str [],
                      Str (fmt_hhmm (TimeCumul sol (Start m v))), Num 0]]) = Some (Inr res)"
    and close: "close_route data m sol names (ids ! v) (k + 1) res = Inr (out', k')"
    by (auto simp: vehicle_step_def split: sum.splits option.splits)
  obtain i s l o1 where res: "res = (i, s, l, o1)" by (cases res)
  let ?r0 = "[ids ! v, Num 0, name, Str (fmt_hhmm sl), Str [],
              Str (fmt_hhmm (TimeCumul sol (Start m v))), Num 0]"
  from visit_loop_rows [OF loop] res obtain rs where
    rs: "o1 = (out @ [?r0]) @ rs" "list_all (event_row (ids ! v)) rs" by auto
  from close_route_rows [OF close [unfolded res]] obtain r where
    r: "k' = k + 1" "event_row (ids ! v) r"
       "out' = o1 @ [r] @ (if k + 1 < count_used data m sol then [blank_row] else [])" by auto
  let ?g = "?r0 # rs @ [r]"
  have "?g \<noteq> []" by simp
  moreover have "list_all (event_row (ids ! v)) ?g" using rs(2) r(2) by simp
  moreover have "out' = out @ ?g @ (if k + 1 < count_used data m sol then [blank_row] else [])"
    using rs(1) r(3) by simp
  ultimately show ?thesis using r(1) by blast
qed

lemma vehicle_step_ids:
  "vehicle_step data m sol names ids slt v st = Some (Inr st') \<Longrightarrow> v < length ids"
  by (auto simp: vehicle_step_def py_nth_def split: if_splits)

lemma vehicles_loop_groups:
  assumes "vehicles_loop data m sol names ids slt vs (out, k) = Some (Inr (out', k'))"
  shows "\<exists>gs. list_all2 (\<lambda>g v. g \<noteq> [] \<and> list_all (event_row (ids ! v)) g) gs
                 (filter (vehicle_used m sol) vs)
            \<and> k' = k + length gs
            \<and> out' = out @ emitted (count_used data m sol) k gs"
  using assms
proof (induction vs arbitrary: out k)
  case Nil
  then show ?case by simp
next
  case (Cons v vs)
  from Cons.prems obtain st1 where
    step: "vehicle_step data m sol names ids slt v (out, k) = Some (Inr st1)" and
    rest: "vehicles_loop data m sol names ids slt vs st1 = Some (Inr (out', k'))"
    by (auto split: option.splits sum.splits)
  obtain o1 k1 where st1: "st1 = (o1, k1)" by (cases st1)
  from Cons.IH [OF rest [unfolded st1]] obtain gs where
    gs: "list_all2 (\<lambda>g v. g \<noteq> [] \<and> list_all (event_row (ids ! v)) g) gs (filter (vehicle_used m sol) vs)"
        "k' = k1 + length gs" "out' = o1 @ emitted (count_used data m sol) k1 gs" by blast
  show ?case
  proof (cases "vehicle_used m sol v")
    case False
    from vehicle_step_unused [OF vehicle_step_ids [OF step] False, of data names slt "(out, k)"] step st1
    have "o1 = out" "k1 = k" by simp_all
    with gs False show ?thesis by auto
  next
    case True
    from vehicle_step_used [OF step [unfolded st1] True] obtain g where
      g: "k1 = k + 1" "g \<noteq> []" "list_all (event_row (ids ! v)) g"
         "o1 = out @ g @ (if k + 1 < count_used data m sol then [blank_row] else [])" by blast
    let ?gs = "g # gs"
    have "list_all2 (\<lambda>g v. g \<noteq> [] \<and> list_all (event_row (ids ! v)) g) ?gs
            (filter (vehicle_used m sol) (v # vs))"
      using True g(2,3) gs(1) by simp
    moreover have "k' = k + length ?gs" using g(1) gs(2) by simp
    moreover have "out' = out @ emitted (count_used data m sol) k ?gs"
      using g(1,4) gs(3) by simp
    ultimately show ?thesis by blast
  qed
qed

lemma emitted_join: "k + length gs = n \<Longrightarrow> emitted n k gs = join_groups gs"
proof (induction gs arbitrary: k rule: join_groups.induct)
  case 1
  then show ?case by simp
next
  case (2 g)
  then show ?case by simp
next
  case (3 g g' gs)
  from "3.prems" have "Suc k + length (g' # gs) = n" by simp
  from "3.IH" [OF this] "3.prems" show ?case by simp
qed


lemma example_run:
  "process_solution example_data example_manager example_solution example_names example_ids
     [450, 470, 485] = Some (Inr example_plan)"
  by code_simp


lemma visit_loop_returns:
  assumes "IsEnd m ((NextVar sol ^^ k) i)"
  shows "visit_loop data m sol names vid i s l out \<noteq> None"
  using assms
proof (induction k arbitrary: i s l out)
  case 0
  then show ?case by (subst visit_loop.simps) simp
next
  case (Suc k)
  show ?case
  proof (cases "IsEnd m i \<or> IsEnd m (NextVar sol i)")
    case True
    then show ?thesis by (subst visit_loop.simps) auto
  next
    case False
    from Suc.prems have e: "IsEnd m ((NextVar sol ^^ k) (NextVar sol i))" by (simp add: funpow_swap1)
    show ?thesis
    proof (cases "visit_row data m sol names vid (NextVar sol i) (s + 1) l")
      case (Inl e)
      with False show ?thesis by (subst visit_loop.simps) simp
    next
      case (Inr p)
      obtain l1 r where "p = (l1, r)" by (cases p)
      with Inr False Suc.IH [OF e, of "s + 1" l1 "out @ [r]"] show ?thesis
        by (subst visit_loop.simps) simp
    qed
  qed
qed


lemma vehicle_step_returns:
  assumes "IsEnd m ((NextVar sol ^^ k) (Start m v))"
  shows "vehicle_step data m sol names ids slt v st \<noteq> None"
  by (simp add: vehicle_step_def visit_loop_returns [OF assms] split: sum.splits option.splits)

lemma vehicles_loop_returns:
  assumes "\<forall>v\<in>set vs. \<exists>k. IsEnd m ((NextVar sol ^^ k) (Start m v))"
  shows "vehicles_loop data m sol names ids slt vs st \<noteq> None"
  using assms
proof (induction vs arbitrary: st)
  case Nil
  then show ?case by simp
next
  case (Cons v vs)
  from Cons.prems obtain k where "IsEnd m ((NextVar sol ^^ k) (Start m v))" by auto
  from vehicle_step_returns [OF this, of data names ids slt st] Cons.IH Cons.prems
  show ?case by (auto split: option.splits sum.splits)
qed

lemma process_solution_returns:
  assumes "\<forall>v<num_vehicles data. \<exists>k. IsEnd m ((NextVar sol ^^ k) (Start m v))"
  shows "process_solution data m sol names ids slt \<noteq> None"
proof -
  from assms have "\<forall>v\<in>set [0..<num_vehicles data]. \<exists>k. IsEnd m ((NextVar sol ^^ k) (Start m v))"
    by simp
  from vehicles_loop_returns [OF this, of data names ids slt "([header], 0)"]
  show ?thesis by (auto simp: process_solution_def split: option.splits sum.splits)
qed

text \<open>
  Claim C6. A vehicle whose route is trivial (the index after its start is an end)
  leaves the rows and the count of used vehicles as they were: its turn of the loop adds
  no row, and the whole loop gives what the loop over the used vehicles alone gives.
\<close>

theorem unused_vehicle_no_rows:
  assumes "length ids = num_vehicles data"
  shows "(\<forall>v<num_vehicles data. IsEnd m (NextVar sol (Start m v)) \<longrightarrow>
            vehicle_step data m sol names ids slt v st = Some (Inr st))
       \<and> vehicles_loop data m sol names ids slt [0..<num_vehicles data] st0 =
           vehicles_loop data m sol names ids slt
             (filter (\<lambda>v. \<not> IsEnd m (NextVar sol (Start m v))) [0..<num_vehicles data]) st0"
proof
  show "\<forall>v<num_vehicles data. IsEnd m (NextVar sol (Start m v)) \<longrightarrow>
            vehicle_step data m sol names ids slt v st = Some (Inr st)"
    using assms by (simp add: vehicle_step_unused vehicle_used_def)
next
  have "\<forall>v\<in>set vs. v < length ids \<Longrightarrow>
          vehicles_loop data m sol names ids slt vs s0 =
          vehicles_loop data m sol names ids slt
            (filter (\<lambda>v. \<not> IsEnd m (NextVar sol (Start m v))) vs) s0" for vs s0
  proof (induction vs arbitrary: s0)
    case Nil
    then show ?case by simp
  next
    case (Cons v vs)
    from Cons.prems have v: "v < length ids" and rest: "\<forall>v\<in>set vs. v < length ids" by simp_all
    show ?case
    proof (cases "IsEnd m (NextVar sol (Start m v))")
      case True
      then have "vehicle_step data m sol names ids slt v s0 = Some (Inr s0)"
        using v by (simp add: vehicle_step_unused vehicle_used_def)
      with True Cons.IH [OF rest] show ?thesis by simp
    next
      case False
      with Cons.IH [OF rest] show ?thesis by (simp split: option.splits sum.splits)
    qed
  qed
  from this [of "[0..<num_vehicles data]" st0] assms
  show "vehicles_loop data m sol names ids slt [0..<num_vehicles data] st0 =
           vehicles_loop data m sol names ids slt
             (filter (\<lambda>v. \<not> IsEnd m (NextVar sol (Start m v))) [0..<num_vehicles data]) st0"
    by simp
qed

theorem unused_vehicle_no_rows_witness:
  "length example_ids = num_vehicles example_data
   \<and> (1::nat) < num_vehicles example_data
   \<and> IsEnd example_manager (NextVar example_solution (Start example_manager 1))
   \<and> vehicle_step example_data example_manager example_solution example_names example_ids
        [450, 470, 485] 1 ([header], 1) = Some (Inr ([header], 1))"
proof -
  have h: "length example_ids = num_vehicles example_data" by code_simp
  have v: "(1::nat) < num_vehicles example_data" by code_simp
  have e: "IsEnd example_manager (NextVar example_solution (Start example_manager 1))" by code_simp
  from unused_vehicle_no_rows [OF h, of example_manager example_solution example_names "[450, 470, 485]" "([header], 1)"]
  have "\<forall>v<num_vehicles example_data. IsEnd example_manager (NextVar example_solution (Start example_manager v)) \<longrightarrow>
            vehicle_step example_data example_manager example_solution example_names example_ids
              [450, 470, 485] v ([header], 1) = Some (Inr ([header], 1))" by (rule conjunct1)
  with v e have "vehicle_step example_data example_manager example_solution example_names example_ids
        [450, 470, 485] 1 ([header], 1) = Some (Inr ([header], 1))" by blast
  with h v e show ?thesis by (intro conjI)
qed

text \<open>
  Claim C7. A plan that \<open>process_solution\<close> returns is the header followed by the
  groups of the used vehicles, in vehicle order, joined by exactly one blank record
  between neighbouring groups; no group is empty or contains a blank record, so blank
  records stand after every used vehicle's group but the last and nowhere else.
\<close>

theorem blank_between_used_groups:
  assumes "process_solution data m sol names ids slt = Some (Inr plan)"
  shows "\<exists>gs. list_all2 (\<lambda>g v. g \<noteq> [] \<and> list_all (event_row (ids ! v)) g) gs
                 (filter (vehicle_used m sol) [0..<num_vehicles data])
            \<and> plan = header # join_groups gs
            \<and> list_all (\<lambda>g. blank_row \<notin> set g) gs
            \<and> header \<noteq> blank_row"
proof -
  from assms obtain k' where
    run: "vehicles_loop data m sol names ids slt [0..<num_vehicles data] ([header], 0) = Some (Inr (plan, k'))"
    by (auto simp: process_solution_def split: option.splits sum.splits)
  from vehicles_loop_groups [OF run] obtain gs where
    gs: "list_all2 (\<lambda>g v. g \<noteq> [] \<and> list_all (event_row (ids ! v)) g) gs
           (filter (vehicle_used m sol) [0..<num_vehicles data])"
        "plan = [header] @ emitted (count_used data m sol) 0 gs" by auto
  from gs(1) have len: "length gs = count_used data m sol"
    by (simp add: count_used_def list_all2_lengthD)
  then have "emitted (count_used data m sol) 0 gs = join_groups gs" by (simp add: emitted_join)
  with gs(2) have plan: "plan = header # join_groups gs" by simp
  have "list_all (\<lambda>g. blank_row \<notin> set g) gs"
    unfolding list_all_iff
  proof
    fix g assume "g \<in> set gs"
    with gs(1) obtain v where "list_all (event_row (ids ! v)) g"
      by (auto simp: list_all2_conv_all_nth in_set_conv_nth)
    then show "blank_row \<notin> set g" using not_event_blank by (auto simp: list_all_iff)
  qed
  with gs(1) plan header_not_blank show ?thesis by blast
qed

theorem blank_between_used_groups_witness:
  "process_solution example_data example_manager example_solution example_names example_ids
     [450, 470, 485] = Some (Inr example_plan)
   \<and> (\<exists>gs. list_all2 (\<lambda>g v. g \<noteq> [] \<and> list_all (event_row (example_ids ! v)) g) gs
                 (filter (vehicle_used example_manager example_solution) [0..<num_vehicles example_data])
            \<and> example_plan = header # join_groups gs
            \<and> list_all (\<lambda>g. blank_row \<notin> set g) gs
            \<and> header \<noteq> blank_row)"
  using blank_between_used_groups [OF example_run] example_run by (intro conjI)


section \<open>The travel-time matrix\<close>

lemma time_row_missing:
  assumes "j < length es" and "duration_value (es ! j) = None"
  shows "time_row slow es = None"
  using assms
proof (induction es arbitrary: j)
  case Nil
  then show ?case by simp
next
  case (Cons e es)
  show ?case
  proof (cases j)
    case 0
    with Cons.prems show ?thesis by simp
  next
    case (Suc j')
    with Cons.prems have "time_row slow es = None" by (intro Cons.IH [of j']) simp_all
    then show ?thesis by (simp split: option.splits)
  qed
qed

lemma origins_loop_failed_entry:
  assumes "i \<in> set origins" and "api i = Response (r # others)" and "j < length r"
    and "status (r ! j) \<noteq> ''OK''" and "j = 0 \<or> duration_value (r ! j) = None"
  shows "origins_loop api slow origins tm = None"
  using assms(1)
proof (induction origins arbitrary: tm)
  case Nil
  then show ?case by simp
next
  case (Cons i0 origins)
  show ?case
  proof (cases "i0 = i")
    case True
    from assms(3) obtain e es where r: "r = e # es" by (cases r) auto
    show ?thesis
    proof (cases "status e \<noteq> ''OK''")
      case True
      with \<open>i0 = i\<close> assms(2) r show ?thesis by simp
    next
      case False
      with assms(4,5) r have "duration_value (r ! j) = None" by (cases j) auto
      from time_row_missing [OF assms(3) this] have "time_row slow (e # es) = None" by (simp only: r)
      with \<open>i0 = i\<close> assms(2) r show ?thesis by simp
    qed
  next
    case False
    with Cons.prems have "i \<in> set origins" by simp
    then have "\<And>tm'. origins_loop api slow origins tm' = None" by (rule Cons.IH)
    then show ?thesis
      by (simp split: api_result.splits list.splits option.splits)
  qed
qed

text \<open>
  Claim C8. If one travel-time entry cannot be obtained, \<open>get_time_matrix\<close> gives no
  matrix and \<open>main\<close> returns before any solve, whatever the solver is. An entry that
  cannot be obtained is an element whose status is not OK; the service gives such an
  element no duration, which is what stops the script when the element is not the first
  of its row (the script looks at the status of the first element only, and reading the
  missing duration raises).
\<close>

theorem failed_entry_invalidates_matrix:
  assumes "i < length df_locations" and "api i = Response (r # others)" and "j < length r"
    and "status (r ! j) \<noteq> ''OK''" and "j = 0 \<or> duration_value (r ! j) = None"
  shows "get_time_matrix (Some api) slow (length df_locations) = None
       \<and> main (Some (df_locations, df_vehicles)) (Some api) slow RoutingIndexManager SolveWithParameters
           = Some Return_no_matrix"
proof -
  from assms(1) have "i \<in> set [0..<length df_locations]" by simp
  from origins_loop_failed_entry [where api = api and i = i and r = r and j = j, OF this assms(2-5)]
  have "get_time_matrix (Some api) slow (length df_locations) = None"
    by (simp add: get_time_matrix_def)
  then show ?thesis by (simp add: main_def)
qed

theorem failed_entry_invalidates_matrix_witness:
  "(0::nat) < length example_locations
   \<and> example_api 0 = Response ([\<lparr>status = ''OK'', duration_value = Some 0\<rparr>,
                                 \<lparr>status = ''NOT_FOUND'', duration_value = None\<rparr>] # [])
   \<and> status ([\<lparr>status = ''OK'', duration_value = Some 0\<rparr>,
               \<lparr>status = ''NOT_FOUND'', duration_value = None\<rparr>] ! 1) \<noteq> ''OK''
   \<and> get_time_matrix (Some example_api) (\<lambda>d. Some (d div 40 + 1)) (length example_locations) = None
   \<and> main (Some (example_locations, [])) (Some example_api) (\<lambda>d. Some (d div 40 + 1))
        (\<lambda>n v d. example_manager) (\<lambda>model. Some example_solution) = Some Return_no_matrix"
proof -
  let ?r = "[\<lparr>status = ''OK'', duration_value = Some 0\<rparr>,
             \<lparr>status = ''NOT_FOUND'', duration_value = None\<rparr>]"
  have h1: "(0::nat) < length example_locations" by (simp add: example_locations_def)
  have h2: "example_api 0 = Response (?r # [])" by (simp add: example_api_def)
  have h3: "(1::nat) < length ?r" by simp
  have h4: "status (?r ! 1) \<noteq> ''OK''" by simp
  have h5: "(1::nat) = 0 \<or> duration_value (?r ! 1) = None" by simp
  note t = failed_entry_invalidates_matrix [where api = example_api and i = 0 and r = ?r and j = 1
      and slow = "\<lambda>d. Some (d div 40 + 1)" and df_vehicles = "[]"
      and RoutingIndexManager = "\<lambda>n v d. example_manager"
      and SolveWithParameters = "\<lambda>model. Some example_solution", OF h1 h2 h3 h4 h5]
  from t have a: "get_time_matrix (Some example_api) (\<lambda>d. Some (d div 40 + 1)) (length example_locations) = None"
    by (rule conjunct1)
  from t have b: "main (Some (example_locations, [])) (Some example_api) (\<lambda>d. Some (d div 40 + 1))
        (\<lambda>n v d. example_manager) (\<lambda>model. Some example_solution) = Some Return_no_matrix"
    by (rule conjunct2)
  from h1 h2 h4 a b show ?thesis by (intro conjI)
qed


section \<open>The routing model\<close>

lemma example_release:
  "staggered_release example_manager 3 450 [20, 15, 15] example_ids =
     Inr \<lparr>start_loading_times = [450, 470, 485], current_time = 500,
          time_calls = [SetMin 0 470, SetMin 3 485, SetMin 4 500]\<rparr>"
  by code_simp

lemma example_build:
  "build_model example_data example_manager 450 [20, 15, 15] example_ids =
     Inr (routing_model_of example_data example_manager [SetMin 0 470, SetMin 3 485, SetMin 4 500],
          [450, 470, 485])"
proof -
  have n: "num_vehicles example_data = 3" by (simp add: example_data_def)
  show ?thesis unfolding build_model_def n example_release by simp
qed

lemma example_feasible:
  "feasible (routing_model_of example_data example_manager [SetMin 0 470, SetMin 3 485, SetMin 4 500])
     example_manager 3 example_solution"
  by code_simp

lemma small_release:
  "staggered_release small_manager 1 0 [10] [Str ''C1''] =
     Inr \<lparr>start_loading_times = [0], current_time = 10, time_calls = [SetMin 0 10]\<rparr>"
  by code_simp

lemma small_build:
  "build_model small_data small_manager 0 [10] [Str ''C1''] =
     Inr (routing_model_of small_data small_manager [SetMin 0 10], [0])"
proof -
  have n: "num_vehicles small_data = 1" by (simp add: small_data_def)
  show ?thesis unfolding build_model_def n small_release by simp
qed

lemma early_feasible:
  "feasible (routing_model_of small_data small_manager [SetMin 0 10]) small_manager 1 early_solution"
  by code_simp

lemma window_loop_keeps: "c \<in> set calls \<Longrightarrow> c \<in> set (window_loop m dep xs calls)"
  by (induction xs arbitrary: calls) auto

lemma window_loop_posts:
  "(l, w) \<in> set xs \<Longrightarrow> l \<noteq> dep \<Longrightarrow>
     SetRange (NodeToIndex m l) (fst w) (snd w) \<in> set (window_loop m dep xs calls)"
proof (induction xs arbitrary: calls)
  case Nil
  then show ?case by simp
next
  case (Cons x xs)
  obtain l' w' where x: "x = (l', w')" by (cases x)
  show ?case
  proof (cases "x = (l, w)")
    case True
    with Cons.prems(2) show ?thesis by (simp add: window_loop_keeps)
  next
    case False
    with Cons.prems have "(l, w) \<in> set xs" by simp
    from Cons.IH [OF this Cons.prems(2)] show ?thesis unfolding x by simp
  qed
qed

lemma build_model_parts:
  assumes "build_model data m S tc ids = Inr (model, slt)"
  shows "\<exists>st. staggered_release m (num_vehicles data) S tc ids = Inr st
           \<and> slt = start_loading_times st
           \<and> model = routing_model_of data m (time_calls st)"
  using assms by (auto simp: build_model_def split: sum.splits)

lemma routing_model_of_fields:
  "time_dimension (routing_model_of data m calls) =
     AddDimension (num_vehicles data) (time_callback data m) 60 1440 False ''time''"
  "capacity_dimension (routing_model_of data m calls) =
     AddDimensionWithVehicleCapacity (demand_callback data m) 0 (vehicle_capacities data) True ''Capacity''"
  "arc_cost_evaluator (routing_model_of data m calls) = time_callback data m"
  "cumul_calls (routing_model_of data m calls) =
     window_loop m (depot data) (enumerate 0 (time_windows data)) calls"
  by (simp_all add: routing_model_of_def)

lemma dimension_holds_index:
  assumes "dimension_holds dim m nv sol cumul" and "i < Size m"
  shows "VehicleVar sol i < length (capacities dim)" and "0 \<le> cumul i"
    and "cumul i \<le> capacities dim ! VehicleVar sol i"
    and "IsEnd m i \<or> arc_ok dim (NextVar sol) cumul i"
  using assms by (auto simp: dimension_holds_def list_all_iff)

lemma dimension_holds_start:
  assumes "dimension_holds dim m nv sol cumul" and "v < nv" and "fix_start_cumul_to_zero dim"
  shows "cumul (Start m v) = 0"
  using assms by (auto simp: dimension_holds_def list_all_iff)

lemma path_stays_with_vehicle:
  assumes "routes_ok m nv sol"
  shows "i < Size m \<Longrightarrow> is_path m sol (i # p) \<Longrightarrow>
           \<forall>x\<in>set (i # p). x < Size m \<and> VehicleVar sol x = VehicleVar sol i"
proof (induction p arbitrary: i)
  case Nil
  then show ?case by simp
next
  case (Cons j p)
  note c = Cons.prems(2) [unfolded is_path.simps(3)]
  from c have ne: "\<not> IsEnd m i" by (rule conjunct1)
  from c have j: "j = NextVar sol i" by (rule conjunct1 [OF conjunct2])
  from c have rest: "is_path m sol (j # p)" by (rule conjunct2 [OF conjunct2])
  from assms Cons.prems(1) ne have "NextVar sol i < Size m \<and> VehicleVar sol (NextVar sol i) = VehicleVar sol i"
    by (auto simp: routes_ok_def list_all_iff)
  with j have js: "j < Size m" and jv: "VehicleVar sol j = VehicleVar sol i" by simp_all
  from Cons.IH [OF js rest] jv Cons.prems(1) show ?case by simp
qed

lemma time_callback_value:
  assumes "IndexToNode m i < length (time_matrix data)"
    and "IndexToNode m j < length (time_matrix data ! IndexToNode m i)"
    and "IndexToNode m i < length (service_times data)"
  shows "time_callback data m i j =
           Inr (time_matrix data ! IndexToNode m i ! IndexToNode m j + service_times data ! IndexToNode m i)"
  using assms by (simp add: time_callback_def py_nth_def Let_def)


lemma exact_load_along_path:
  fixes load :: "nat \<Rightarrow> int" and dem :: "nat \<Rightarrow> int"
  assumes arcs: "\<And>k. k < Size m \<Longrightarrow> \<not> IsEnd m k \<Longrightarrow> load (NextVar sol k) = load k + dem k"
  shows "is_path m sol (i # p) \<Longrightarrow> \<forall>x\<in>set (i # p). x < Size m \<Longrightarrow>
           load (last (i # p)) = load i + sum_list (map dem (butlast (i # p)))"
proof (induction p arbitrary: i)
  case Nil
  then show ?case by simp
next
  case (Cons j p)
  note c = Cons.prems(1) [unfolded is_path.simps(3)]
  from c have ne: "\<not> IsEnd m i" by (rule conjunct1)
  from c have j: "j = NextVar sol i" by (rule conjunct1 [OF conjunct2])
  from c have rest: "is_path m sol (j # p)" by (rule conjunct2 [OF conjunct2])
  from Cons.prems(2) have i: "i < Size m" and js: "\<forall>x\<in>set (j # p). x < Size m" by simp_all
  from arcs [OF i ne] j have "load j = load i + dem i" by simp
  with Cons.IH [OF rest js] show ?case by simp
qed


text \<open>
  Claim C2. For a solution that is feasible for the model \<open>main\<close> builds: the time
  value at every location other than the depot lies within that location's window; along
  the route of every vehicle the cumulative load never exceeds that vehicle's capacity;
  and the time value at every vehicle's start is at least its release time, the loading
  start plus the loading durations up to and including its own.
\<close>

theorem feasible_solution_respects_limits:
  assumes build: "build_model data m S tc ids = Inr (model, slt)"
    and lens: "length tc = num_vehicles data" "length ids = num_vehicles data"
    and feas: "feasible model m (num_vehicles data) sol"
  shows "(\<forall>loc<length (time_windows data). loc \<noteq> depot data \<longrightarrow>
            fst (time_windows data ! loc) \<le> TimeCumul sol (NodeToIndex m loc)
            \<and> TimeCumul sol (NodeToIndex m loc) \<le> snd (time_windows data ! loc))
       \<and> (\<forall>v<num_vehicles data. \<forall>p. is_path m sol (Start m v # p) \<longrightarrow>
            (\<forall>i\<in>set (Start m v # p). LoadCumul sol i \<le> vehicle_capacities data ! v))
       \<and> (\<forall>v<num_vehicles data. S + sum_list (take (Suc v) tc) \<le> TimeCumul sol (Start m v))"
proof -
  from build_model_parts [OF build] obtain st :: release_state where
    st: "staggered_release m (num_vehicles data) S tc ids = Inr st"
    and model: "model = routing_model_of data m (time_calls st)"
    by blast
  have calls: "cumul_calls model = window_loop m (depot data) (enumerate 0 (time_windows data)) (time_calls st)"
    by (simp add: model routing_model_of_fields)
  from feas have holds: "\<And>c. c \<in> set (cumul_calls model) \<Longrightarrow> call_holds (TimeCumul sol) c"
    by (simp add: feasible_def list_all_iff)
  have windows: "\<forall>loc<length (time_windows data). loc \<noteq> depot data \<longrightarrow>
            fst (time_windows data ! loc) \<le> TimeCumul sol (NodeToIndex m loc)
            \<and> TimeCumul sol (NodeToIndex m loc) \<le> snd (time_windows data ! loc)"
  proof (intro allI impI)
    fix loc assume loc: "loc < length (time_windows data)" "loc \<noteq> depot data"
    from loc(1) have "(loc, time_windows data ! loc) \<in> set (enumerate 0 (time_windows data))"
      by (simp add: in_set_enumerate_eq)
    from window_loop_posts [OF this loc(2)] calls
    have "SetRange (NodeToIndex m loc) (fst (time_windows data ! loc)) (snd (time_windows data ! loc))
            \<in> set (cumul_calls model)" by simp
    from holds [OF this]
    show "fst (time_windows data ! loc) \<le> TimeCumul sol (NodeToIndex m loc)
            \<and> TimeCumul sol (NodeToIndex m loc) \<le> snd (time_windows data ! loc)" by simp
  qed
  have release: "\<forall>v<num_vehicles data. S + sum_list (take (Suc v) tc) \<le> TimeCumul sol (Start m v)"
  proof (intro allI impI)
    fix v assume v: "v < num_vehicles data"
    have bounds: "\<forall>v\<in>set [0..<num_vehicles data]. v < length tc \<and> v < length ids" using lens by simp
    have dn: "map ((!) tc) [0..<num_vehicles data] = tc" using map_nth [of tc] lens(1) by simp
    from st have "time_calls st =
        map (\<lambda>k. SetMin (Start m ([0..<num_vehicles data] ! k)) (S + sum_list (take (Suc k) tc)))
          [0..<num_vehicles data]"
      unfolding staggered_release_def release_loop_result [OF bounds] by (auto simp: dn)
    with v have "SetMin (Start m v) (S + sum_list (take (Suc v) tc)) \<in> set (time_calls st)"
      by (auto simp: image_iff intro!: bexI [of _ v])
    then have "SetMin (Start m v) (S + sum_list (take (Suc v) tc)) \<in> set (cumul_calls model)"
      unfolding calls by (rule window_loop_keeps)
    from holds [OF this] show "S + sum_list (take (Suc v) tc) \<le> TimeCumul sol (Start m v)" by simp
  qed
  have load: "\<forall>v<num_vehicles data. \<forall>p. is_path m sol (Start m v # p) \<longrightarrow>
            (\<forall>i\<in>set (Start m v # p). LoadCumul sol i \<le> vehicle_capacities data ! v)"
  proof (intro allI impI ballI)
    fix v p i assume v: "v < num_vehicles data" and p: "is_path m sol (Start m v # p)"
      and i: "i \<in> set (Start m v # p)"
    from feas have ro: "routes_ok m (num_vehicles data) sol"
      and cap: "dimension_holds (capacity_dimension model) m (num_vehicles data) sol (LoadCumul sol)"
      by (simp_all add: feasible_def)
    from ro v have s: "Start m v < Size m" "VehicleVar sol (Start m v) = v"
      by (auto simp: routes_ok_def list_all_iff)
    from path_stays_with_vehicle [OF ro s(1) p] i s(2) have "i < Size m" "VehicleVar sol i = v" by auto
    with dimension_holds_index(3) [OF cap \<open>i < Size m\<close>]
    show "LoadCumul sol i \<le> vehicle_capacities data ! v"
      by (simp add: model routing_model_of_fields AddDimensionWithVehicleCapacity_def)
  qed
  from windows load release show ?thesis by (intro conjI)
qed


theorem feasible_solution_respects_limits_witness:
  "build_model example_data example_manager 450 [20, 15, 15] example_ids =
     Inr (routing_model_of example_data example_manager [SetMin 0 470, SetMin 3 485, SetMin 4 500],
          [450, 470, 485])
   \<and> length [20, 15, 15 :: int] = num_vehicles example_data
   \<and> length example_ids = num_vehicles example_data
   \<and> feasible (routing_model_of example_data example_manager [SetMin 0 470, SetMin 3 485, SetMin 4 500])
        example_manager (num_vehicles example_data) example_solution
   \<and> is_path example_manager example_solution (Start example_manager 0 # [1, 5])
   \<and> 480 \<le> TimeCumul example_solution (NodeToIndex example_manager 1)
   \<and> TimeCumul example_solution (NodeToIndex example_manager 1) \<le> 600
   \<and> LoadCumul example_solution 5 \<le> vehicle_capacities example_data ! 0
   \<and> 470 \<le> TimeCumul example_solution (Start example_manager 0)"
proof -
  have n: "num_vehicles example_data = 3" by (simp add: example_data_def)
  have l1: "length [20, 15, 15 :: int] = num_vehicles example_data" by (simp add: n)
  have l2: "length example_ids = num_vehicles example_data" by (simp add: n example_ids_def)
  have f: "feasible (routing_model_of example_data example_manager [SetMin 0 470, SetMin 3 485, SetMin 4 500])
        example_manager (num_vehicles example_data) example_solution"
    unfolding n by (rule example_feasible)
  have p: "is_path example_manager example_solution (Start example_manager 0 # [1, 5])"
    by (simp add: example_manager_def example_solution_def)
  note t = feasible_solution_respects_limits [OF example_build l1 l2 f]
  have w: "time_windows example_data ! 1 = (480, 600)" "depot example_data = 0"
    "length (time_windows example_data) = 3"
    by (simp_all add: example_data_def)
  from t have "\<forall>loc<length (time_windows example_data). loc \<noteq> depot example_data \<longrightarrow>
            fst (time_windows example_data ! loc) \<le> TimeCumul example_solution (NodeToIndex example_manager loc)
            \<and> TimeCumul example_solution (NodeToIndex example_manager loc) \<le> snd (time_windows example_data ! loc)"
    by (rule conjunct1)
  from this [rule_format, of 1] w
  have a: "480 \<le> TimeCumul example_solution (NodeToIndex example_manager 1)"
    and b: "TimeCumul example_solution (NodeToIndex example_manager 1) \<le> 600" by simp_all
  from t have "\<forall>v<num_vehicles example_data. \<forall>p. is_path example_manager example_solution (Start example_manager v # p) \<longrightarrow>
            (\<forall>i\<in>set (Start example_manager v # p). LoadCumul example_solution i \<le> vehicle_capacities example_data ! v)"
    by (rule conjunct1 [OF conjunct2])
  note ld = this [rule_format]
  have v0: "0 < num_vehicles example_data" by (simp add: n)
  have mem: "5 \<in> set (Start example_manager 0 # [1, 5])" by simp
  from ld [OF v0 p mem]
  have c: "LoadCumul example_solution 5 \<le> vehicle_capacities example_data ! 0" .
  from t have "\<forall>v<num_vehicles example_data. 450 + sum_list (take (Suc v) [20, 15, 15]) \<le> TimeCumul example_solution (Start example_manager v)"
    by (rule conjunct2 [OF conjunct2])
  from this [rule_format, of 0] n
  have d: "470 \<le> TimeCumul example_solution (Start example_manager 0)" by simp
  from example_build l1 l2 f p a b c d show ?thesis by (intro conjI)
qed


text \<open>
  Claim C3, which says the time dimension bounds the cumulative time from below by 60.
  The script passes 60 in the place of the slack maximum, so the cumulative variable
  starts at zero: with loading from midnight a feasible solution leaves the depot at
  minute 10.
\<close>

theorem time_dimension_lower_bound_counterexample:
  "build_model small_data small_manager 0 [10] [Str ''C1''] =
     Inr (routing_model_of small_data small_manager [SetMin 0 10], [0])
   \<and> feasible (routing_model_of small_data small_manager [SetMin 0 10]) small_manager 1 early_solution
   \<and> TimeCumul early_solution (Start small_manager 0) = 10
   \<and> \<not> 60 \<le> TimeCumul early_solution (Start small_manager 0)"
proof -
  have "TimeCumul early_solution (Start small_manager 0) = 10"
    by (simp add: early_solution_def small_manager_def)
  moreover from this have "\<not> 60 \<le> TimeCumul early_solution (Start small_manager 0)" by simp
  ultimately show ?thesis using small_build early_feasible by (intro conjI)
qed


text \<open>
  Claim C3 as amended. The transit from \<open>i\<close> to \<open>j\<close> is the travel time plus the service
  time of the location being left; the dimension has slack maximum 60 (the longest wait
  at a location), upper bound 1440 on the cumulative time, whose lower bound is zero, and
  does not fix the start to zero. So every cumulative time lies in 0..1440 and grows
  across an arc by the transit plus at most 60.
\<close>

theorem time_dimension_as_built:
  assumes "build_model data m S tc ids = Inr (model, slt)"
  shows "evaluator (time_dimension model) = time_callback data m
     \<and> (IndexToNode m i < length (time_matrix data) \<longrightarrow>
          IndexToNode m j < length (time_matrix data ! IndexToNode m i) \<longrightarrow>
          IndexToNode m i < length (service_times data) \<longrightarrow>
          time_callback data m i j =
            Inr (time_matrix data ! IndexToNode m i ! IndexToNode m j + service_times data ! IndexToNode m i))
     \<and> slack_max (time_dimension model) = 60
     \<and> capacities (time_dimension model) = replicate (num_vehicles data) 1440
     \<and> \<not> fix_start_cumul_to_zero (time_dimension model)
     \<and> (dimension_holds (time_dimension model) m (num_vehicles data) sol cumul \<longrightarrow>
          (\<forall>k<Size m. 0 \<le> cumul k \<and> cumul k \<le> 1440 \<and>
             (\<not> IsEnd m k \<longrightarrow>
                (\<exists>t. time_callback data m k (NextVar sol k) = Inr t
                   \<and> cumul k + t \<le> cumul (NextVar sol k)
                   \<and> cumul (NextVar sol k) \<le> cumul k + t + 60))))"
proof -
  from build_model_parts [OF assms] obtain st :: release_state where
    model: "model = routing_model_of data m (time_calls st)" by blast
  have dim: "time_dimension model =
      AddDimension (num_vehicles data) (time_callback data m) 60 1440 False ''time''"
    by (simp add: model routing_model_of_fields)
  have ev: "evaluator (time_dimension model) = time_callback data m"
    and sl: "slack_max (time_dimension model) = 60"
    and cp: "capacities (time_dimension model) = replicate (num_vehicles data) 1440"
    and fx: "\<not> fix_start_cumul_to_zero (time_dimension model)"
    by (simp_all add: dim AddDimension_def)
  have cb: "IndexToNode m i < length (time_matrix data) \<longrightarrow>
          IndexToNode m j < length (time_matrix data ! IndexToNode m i) \<longrightarrow>
          IndexToNode m i < length (service_times data) \<longrightarrow>
          time_callback data m i j =
            Inr (time_matrix data ! IndexToNode m i ! IndexToNode m j + service_times data ! IndexToNode m i)"
    by (simp add: time_callback_value)
  have sem: "dimension_holds (time_dimension model) m (num_vehicles data) sol cumul \<longrightarrow>
          (\<forall>k<Size m. 0 \<le> cumul k \<and> cumul k \<le> 1440 \<and>
             (\<not> IsEnd m k \<longrightarrow>
                (\<exists>t. time_callback data m k (NextVar sol k) = Inr t
                   \<and> cumul k + t \<le> cumul (NextVar sol k)
                   \<and> cumul (NextVar sol k) \<le> cumul k + t + 60)))"
  proof (intro impI allI)
    fix k assume h: "dimension_holds (time_dimension model) m (num_vehicles data) sol cumul"
      and k: "k < Size m"
    note ix = dimension_holds_index [OF h k]
    from ix(1) have vv: "VehicleVar sol k < num_vehicles data" by (simp add: cp)
    from ix(3) vv have up: "cumul k \<le> 1440" by (simp add: cp)
    have arc: "\<not> IsEnd m k \<longrightarrow>
                (\<exists>t. time_callback data m k (NextVar sol k) = Inr t
                   \<and> cumul k + t \<le> cumul (NextVar sol k)
                   \<and> cumul (NextVar sol k) \<le> cumul k + t + 60)"
    proof
      assume "\<not> IsEnd m k"
      with ix(4) have "arc_ok (time_dimension model) (NextVar sol) cumul k" by simp
      then show "\<exists>t. time_callback data m k (NextVar sol k) = Inr t
                   \<and> cumul k + t \<le> cumul (NextVar sol k)
                   \<and> cumul (NextVar sol k) \<le> cumul k + t + 60"
        by (auto simp: arc_ok_def ev sl split: sum.splits)
    qed
    from ix(2) up arc show "0 \<le> cumul k \<and> cumul k \<le> 1440 \<and>
             (\<not> IsEnd m k \<longrightarrow>
                (\<exists>t. time_callback data m k (NextVar sol k) = Inr t
                   \<and> cumul k + t \<le> cumul (NextVar sol k)
                   \<and> cumul (NextVar sol k) \<le> cumul k + t + 60))" by (intro conjI)
  qed
  from ev cb sl cp fx sem show ?thesis by (intro conjI)
qed

theorem time_dimension_as_built_witness:
  "build_model example_data example_manager 450 [20, 15, 15] example_ids =
     Inr (routing_model_of example_data example_manager [SetMin 0 470, SetMin 3 485, SetMin 4 500],
          [450, 470, 485])
   \<and> dimension_holds
        (time_dimension (routing_model_of example_data example_manager [SetMin 0 470, SetMin 3 485, SetMin 4 500]))
        example_manager (num_vehicles example_data) example_solution (TimeCumul example_solution)
   \<and> time_callback example_data example_manager 1 5 = Inr 20
   \<and> slack_max (time_dimension (routing_model_of example_data example_manager
        [SetMin 0 470, SetMin 3 485, SetMin 4 500])) = 60
   \<and> 0 \<le> TimeCumul example_solution 1 \<and> TimeCumul example_solution 1 \<le> 1440
   \<and> (\<exists>t. time_callback example_data example_manager 1 (NextVar example_solution 1) = Inr t
          \<and> TimeCumul example_solution 1 + t \<le> TimeCumul example_solution (NextVar example_solution 1)
          \<and> TimeCumul example_solution (NextVar example_solution 1) \<le> TimeCumul example_solution 1 + t + 60)"
proof -
  let ?M = "routing_model_of example_data example_manager [SetMin 0 470, SetMin 3 485, SetMin 4 500]"
  have n: "num_vehicles example_data = 3" by (simp add: example_data_def)
  from example_feasible have h: "dimension_holds (time_dimension ?M) example_manager
      (num_vehicles example_data) example_solution (TimeCumul example_solution)"
    by (simp add: feasible_def n)
  note t = time_dimension_as_built [OF example_build, of 1 5 example_solution "TimeCumul example_solution"]
  have r: "IndexToNode example_manager 1 < length (time_matrix example_data)"
    "IndexToNode example_manager 5 < length (time_matrix example_data ! IndexToNode example_manager 1)"
    "IndexToNode example_manager 1 < length (service_times example_data)"
    by (simp_all add: example_manager_def example_data_def)
  from t r have "time_callback example_data example_manager 1 5 =
      Inr (time_matrix example_data ! IndexToNode example_manager 1 ! IndexToNode example_manager 5
           + service_times example_data ! IndexToNode example_manager 1)" by blast
  then have a: "time_callback example_data example_manager 1 5 = Inr 20"
    by (simp add: example_manager_def example_data_def)
  from t have b: "slack_max (time_dimension ?M) = 60" by blast
  from t h have "\<forall>k<Size example_manager. 0 \<le> TimeCumul example_solution k \<and> TimeCumul example_solution k \<le> 1440 \<and>
             (\<not> IsEnd example_manager k \<longrightarrow>
                (\<exists>t. time_callback example_data example_manager k (NextVar example_solution k) = Inr t
                   \<and> TimeCumul example_solution k + t \<le> TimeCumul example_solution (NextVar example_solution k)
                   \<and> TimeCumul example_solution (NextVar example_solution k) \<le> TimeCumul example_solution k + t + 60))"
    by blast
  note s = this [rule_format, of 1]
  have k: "1 < Size example_manager" "\<not> IsEnd example_manager 1" by (simp_all add: example_manager_def)
  from s [OF k(1)] have c: "0 \<le> TimeCumul example_solution 1" and d: "TimeCumul example_solution 1 \<le> 1440"
    and "\<not> IsEnd example_manager 1 \<longrightarrow>
                (\<exists>t. time_callback example_data example_manager 1 (NextVar example_solution 1) = Inr t
                   \<and> TimeCumul example_solution 1 + t \<le> TimeCumul example_solution (NextVar example_solution 1)
                   \<and> TimeCumul example_solution (NextVar example_solution 1) \<le> TimeCumul example_solution 1 + t + 60)"
    by blast+
  with k(2) have e: "\<exists>t. time_callback example_data example_manager 1 (NextVar example_solution 1) = Inr t
                   \<and> TimeCumul example_solution 1 + t \<le> TimeCumul example_solution (NextVar example_solution 1)
                   \<and> TimeCumul example_solution (NextVar example_solution 1) \<le> TimeCumul example_solution 1 + t + 60"
    by blast
  from example_build h a b c d e show ?thesis by (intro conjI)
qed

text \<open>
  Claim C4, which says the capacity dimension charges the demand of a node on entering
  it. The callback reads the demand of the node being left: the arc from the depot to a
  shop with demand 5 has transit 0, and in a feasible solution the load at that shop is
  still 0.
\<close>

theorem demand_on_entering_counterexample:
  "build_model small_data small_manager 0 [10] [Str ''C1''] =
     Inr (routing_model_of small_data small_manager [SetMin 0 10], [0])
   \<and> evaluator (capacity_dimension (routing_model_of small_data small_manager [SetMin 0 10])) 0 1 = Inr 0
   \<and> py_nth (demands small_data) (IndexToNode small_manager 1) = Inr 5
   \<and> evaluator (capacity_dimension (routing_model_of small_data small_manager [SetMin 0 10])) 0 1
        \<noteq> py_nth (demands small_data) (IndexToNode small_manager 1)
   \<and> feasible (routing_model_of small_data small_manager [SetMin 0 10]) small_manager 1 early_solution
   \<and> NextVar early_solution (Start small_manager 0) = 1
   \<and> LoadCumul early_solution 1 = 0"
proof -
  have a: "evaluator (capacity_dimension (routing_model_of small_data small_manager [SetMin 0 10])) 0 1 = Inr 0"
    by (simp add: routing_model_of_fields AddDimensionWithVehicleCapacity_def demand_callback_def
        py_nth_def small_data_def small_manager_def)
  have b: "py_nth (demands small_data) (IndexToNode small_manager 1) = Inr 5"
    by (simp add: py_nth_def small_data_def small_manager_def)
  from a b have c: "evaluator (capacity_dimension (routing_model_of small_data small_manager [SetMin 0 10])) 0 1
        \<noteq> py_nth (demands small_data) (IndexToNode small_manager 1)" by simp
  have d: "NextVar early_solution (Start small_manager 0) = 1" "LoadCumul early_solution 1 = 0"
    by (simp_all add: early_solution_def small_manager_def)
  from small_build a b c early_feasible d show ?thesis by (intro conjI)
qed

text \<open>
  Claim C4 as amended. The capacity dimension charges the demand of node \<open>i\<close> on leaving
  \<open>i\<close>; its slack maximum is zero, its upper bounds are the vehicles' capacities, the
  cumulative load is never negative and is zero at every start. So across every arc the
  load grows by exactly the demand of the node left, and the load at any point of a route
  is the sum of the demands of the nodes before it.
\<close>

theorem capacity_dimension_as_built:
  assumes "build_model data m S tc ids = Inr (model, slt)"
  shows "evaluator (capacity_dimension model) i j = demand_callback data m i
     \<and> (IndexToNode m i < length (demands data) \<longrightarrow>
          evaluator (capacity_dimension model) i j = Inr (demands data ! IndexToNode m i))
     \<and> slack_max (capacity_dimension model) = 0
     \<and> capacities (capacity_dimension model) = vehicle_capacities data
     \<and> fix_start_cumul_to_zero (capacity_dimension model)
     \<and> (dimension_holds (capacity_dimension model) m (num_vehicles data) sol load \<longrightarrow>
          (\<forall>k<Size m. 0 \<le> load k \<and> load k \<le> vehicle_capacities data ! VehicleVar sol k \<and>
             (\<not> IsEnd m k \<longrightarrow> IndexToNode m k < length (demands data)
                \<and> load (NextVar sol k) = load k + demands data ! IndexToNode m k))
          \<and> (\<forall>v<num_vehicles data. load (Start m v) = 0)
          \<and> (\<forall>v<num_vehicles data. \<forall>p.
                is_path m sol (Start m v # p) \<longrightarrow> list_all (\<lambda>x. x < Size m) (Start m v # p) \<longrightarrow>
                load (last (Start m v # p)) =
                  sum_list (map (\<lambda>k. demands data ! IndexToNode m k) (butlast (Start m v # p)))))"
proof -
  from build_model_parts [OF assms] obtain st :: release_state where
    model: "model = routing_model_of data m (time_calls st)" by blast
  have dim: "capacity_dimension model =
      AddDimensionWithVehicleCapacity (demand_callback data m) 0 (vehicle_capacities data) True ''Capacity''"
    by (simp add: model routing_model_of_fields)
  have ev: "evaluator (capacity_dimension model) i j = demand_callback data m i" for i j
    by (simp add: dim AddDimensionWithVehicleCapacity_def)
  have sl: "slack_max (capacity_dimension model) = 0"
    and cp: "capacities (capacity_dimension model) = vehicle_capacities data"
    and fx: "fix_start_cumul_to_zero (capacity_dimension model)"
    by (simp_all add: dim AddDimensionWithVehicleCapacity_def)
  have val: "IndexToNode m i < length (demands data) \<longrightarrow>
          evaluator (capacity_dimension model) i j = Inr (demands data ! IndexToNode m i)"
    by (simp add: ev demand_callback_def py_nth_def)
  have sem: "dimension_holds (capacity_dimension model) m (num_vehicles data) sol load \<longrightarrow>
          (\<forall>k<Size m. 0 \<le> load k \<and> load k \<le> vehicle_capacities data ! VehicleVar sol k \<and>
             (\<not> IsEnd m k \<longrightarrow> IndexToNode m k < length (demands data)
                \<and> load (NextVar sol k) = load k + demands data ! IndexToNode m k))
          \<and> (\<forall>v<num_vehicles data. load (Start m v) = 0)
          \<and> (\<forall>v<num_vehicles data. \<forall>p.
                is_path m sol (Start m v # p) \<longrightarrow> list_all (\<lambda>x. x < Size m) (Start m v # p) \<longrightarrow>
                load (last (Start m v # p)) =
                  sum_list (map (\<lambda>k. demands data ! IndexToNode m k) (butlast (Start m v # p))))"
  proof
    assume h: "dimension_holds (capacity_dimension model) m (num_vehicles data) sol load"
    have arc: "IndexToNode m k < length (demands data)
                \<and> load (NextVar sol k) = load k + demands data ! IndexToNode m k"
      if k: "k < Size m" and ne: "\<not> IsEnd m k" for k
    proof -
      from dimension_holds_index(4) [OF h k] ne
      have "arc_ok (capacity_dimension model) (NextVar sol) load k" by simp
      then show ?thesis
        by (auto simp: arc_ok_def ev sl demand_callback_def py_nth_def split: sum.splits if_splits)
    qed
    have idx: "\<forall>k<Size m. 0 \<le> load k \<and> load k \<le> vehicle_capacities data ! VehicleVar sol k \<and>
             (\<not> IsEnd m k \<longrightarrow> IndexToNode m k < length (demands data)
                \<and> load (NextVar sol k) = load k + demands data ! IndexToNode m k)"
    proof (intro allI impI)
      fix k assume k: "k < Size m"
      note ix = dimension_holds_index [OF h k]
      from ix(3) have "load k \<le> vehicle_capacities data ! VehicleVar sol k" by (simp add: cp)
      with ix(2) arc [OF k]
      show "0 \<le> load k \<and> load k \<le> vehicle_capacities data ! VehicleVar sol k \<and>
             (\<not> IsEnd m k \<longrightarrow> IndexToNode m k < length (demands data)
                \<and> load (NextVar sol k) = load k + demands data ! IndexToNode m k)" by blast
    qed
    have start: "\<forall>v<num_vehicles data. load (Start m v) = 0"
      using dimension_holds_start [OF h _ fx] by blast
    have path: "\<forall>v<num_vehicles data. \<forall>p.
                is_path m sol (Start m v # p) \<longrightarrow> list_all (\<lambda>x. x < Size m) (Start m v # p) \<longrightarrow>
                load (last (Start m v # p)) =
                  sum_list (map (\<lambda>k. demands data ! IndexToNode m k) (butlast (Start m v # p)))"
    proof (intro allI impI)
      fix v p assume v: "v < num_vehicles data" and p: "is_path m sol (Start m v # p)"
        and sz: "list_all (\<lambda>x. x < Size m) (Start m v # p)"
      from sz have sz': "\<forall>x\<in>set (Start m v # p). x < Size m" by (simp add: list_all_iff)
      have "load (last (Start m v # p)) =
              load (Start m v) + sum_list (map (\<lambda>k. demands data ! IndexToNode m k) (butlast (Start m v # p)))"
        by (rule exact_load_along_path [OF _ p sz']) (simp add: arc)
      with start v show "load (last (Start m v # p)) =
                  sum_list (map (\<lambda>k. demands data ! IndexToNode m k) (butlast (Start m v # p)))" by simp
    qed
    from idx start path show "(\<forall>k<Size m. 0 \<le> load k \<and> load k \<le> vehicle_capacities data ! VehicleVar sol k \<and>
             (\<not> IsEnd m k \<longrightarrow> IndexToNode m k < length (demands data)
                \<and> load (NextVar sol k) = load k + demands data ! IndexToNode m k))
          \<and> (\<forall>v<num_vehicles data. load (Start m v) = 0)
          \<and> (\<forall>v<num_vehicles data. \<forall>p.
                is_path m sol (Start m v # p) \<longrightarrow> list_all (\<lambda>x. x < Size m) (Start m v # p) \<longrightarrow>
                load (last (Start m v # p)) =
                  sum_list (map (\<lambda>k. demands data ! IndexToNode m k) (butlast (Start m v # p))))"
      by (intro conjI)
  qed
  from ev [of i j] val sl cp fx sem show ?thesis by (intro conjI)
qed

theorem capacity_dimension_as_built_witness:
  "build_model example_data example_manager 450 [20, 15, 15] example_ids =
     Inr (routing_model_of example_data example_manager [SetMin 0 470, SetMin 3 485, SetMin 4 500],
          [450, 470, 485])
   \<and> dimension_holds
        (capacity_dimension (routing_model_of example_data example_manager [SetMin 0 470, SetMin 3 485, SetMin 4 500]))
        example_manager (num_vehicles example_data) example_solution (LoadCumul example_solution)
   \<and> evaluator (capacity_dimension (routing_model_of example_data example_manager
        [SetMin 0 470, SetMin 3 485, SetMin 4 500])) 1 5 = Inr 5
   \<and> is_path example_manager example_solution (Start example_manager 0 # [1, 5])
   \<and> LoadCumul example_solution (last (Start example_manager 0 # [1, 5])) =
        sum_list (map (\<lambda>k. demands example_data ! IndexToNode example_manager k)
                   (butlast (Start example_manager 0 # [1, 5])))
   \<and> LoadCumul example_solution 5 = 5"
proof -
  let ?M = "routing_model_of example_data example_manager [SetMin 0 470, SetMin 3 485, SetMin 4 500]"
  have n: "num_vehicles example_data = 3" by (simp add: example_data_def)
  from example_feasible have h: "dimension_holds (capacity_dimension ?M) example_manager
      (num_vehicles example_data) example_solution (LoadCumul example_solution)"
    by (simp add: feasible_def n)
  note t = capacity_dimension_as_built [OF example_build, of 1 5 example_solution "LoadCumul example_solution"]
  have r: "IndexToNode example_manager 1 < length (demands example_data)"
    by (simp add: example_manager_def example_data_def)
  from t r have "evaluator (capacity_dimension ?M) 1 5 = Inr (demands example_data ! IndexToNode example_manager 1)"
    by blast
  then have a: "evaluator (capacity_dimension ?M) 1 5 = Inr 5"
    by (simp add: example_manager_def example_data_def)
  have p: "is_path example_manager example_solution (Start example_manager 0 # [1, 5])"
    by (simp add: example_manager_def example_solution_def)
  have sz: "list_all (\<lambda>x. x < Size example_manager) (Start example_manager 0 # [1, 5])"
    by (simp add: example_manager_def)
  have v0: "0 < num_vehicles example_data" by (simp add: n)
  from t h have "\<forall>v<num_vehicles example_data. \<forall>p.
        is_path example_manager example_solution (Start example_manager v # p) \<longrightarrow>
        list_all (\<lambda>x. x < Size example_manager) (Start example_manager v # p) \<longrightarrow>
        LoadCumul example_solution (last (Start example_manager v # p)) =
          sum_list (map (\<lambda>k. demands example_data ! IndexToNode example_manager k)
                     (butlast (Start example_manager v # p)))"
    by blast
  note s = this [rule_format, OF v0 p sz]
  have e: "LoadCumul example_solution 5 = 5" by (simp add: example_solution_def)
  from example_build h a p s e show ?thesis by (intro conjI)
qed

end
